theory Spec2Isabelle
  imports Main "HOL-Library.Sublist" "HOL-Library.List_Lexorder" "HOL-Library.Char_ord" "HOL-Library.Multiset"
begin

chapter \<open>The model of polydb\<close>

section \<open>Values, dictionaries and errors\<close>

text \<open>
  The records that travel through polydb are Python dictionaries from field names to
  JSON values (\<^verbatim>\<open>JsonDict\<close> of \<^verbatim>\<open>types.py\<close>). Field values are modelled as the
  JSON scalars: \<^verbatim>\<open>None\<close>, booleans, integers and strings. Arrays, nested objects and
  floating-point numbers are outside the model. A dictionary is an association list,
  which keeps Python's insertion order; a lookup reads the first binding of a key.
\<close>

datatype pyval = PNone | PBool bool | PInt int | PStr string

type_synonym JsonDict = "(string \<times> pyval) list"

text \<open>
  The exception classes of \<^verbatim>\<open>errors.py\<close> and the Python built-in exceptions the
  modelled code can raise. Messages are not modelled.
\<close>

datatype error =
    DatabaseError | NoSQLError | StorageError | ValidationError
  | ValueError | TypeError | KeyError | PermissionError | ImportError

text \<open>\<^verbatim>\<open>d.get(k)\<close>: the value bound to \<open>k\<close>, or \<^verbatim>\<open>None\<close>.\<close>

definition dict_get :: "JsonDict \<Rightarrow> string \<Rightarrow> pyval" where
  "dict_get d k = (case map_of d k of None \<Rightarrow> PNone | Some v \<Rightarrow> v)"

text \<open>\<^verbatim>\<open>d.get(k, default)\<close>.\<close>

definition dict_get_default :: "JsonDict \<Rightarrow> string \<Rightarrow> pyval \<Rightarrow> pyval" where
  "dict_get_default d k dflt = (case map_of d k of None \<Rightarrow> dflt | Some v \<Rightarrow> v)"

text \<open>Python's truth value of an object (\<^verbatim>\<open>if x\<close>, \<^verbatim>\<open>not x\<close>, \<^verbatim>\<open>x and y\<close>).\<close>

fun py_truthy :: "pyval \<Rightarrow> bool" where
  "py_truthy PNone = False"
| "py_truthy (PBool b) = b"
| "py_truthy (PInt n) = (n \<noteq> 0)"
| "py_truthy (PStr s) = (s \<noteq> [])"

text \<open>
  Booleans are integers in Python (\<^verbatim>\<open>True == 1\<close>), so the numeric values are the
  booleans and the integers.
\<close>

fun py_num :: "pyval \<Rightarrow> int option" where
  "py_num (PBool b) = Some (if b then 1 else 0)"
| "py_num (PInt n) = Some n"
| "py_num PNone = None"
| "py_num (PStr s) = None"

text \<open>Python's \<^verbatim>\<open>==\<close> on these values.\<close>

definition py_eq :: "pyval \<Rightarrow> pyval \<Rightarrow> bool" where
  "py_eq a b =
     (case (py_num a, py_num b) of
        (Some x, Some y) \<Rightarrow> x = y
      | _ \<Rightarrow> a = b)"

section \<open>The query representation (\<^verbatim>\<open>query.py\<close>)\<close>

datatype Operator =
    EQ | NE | GT | GTE | LT | LTE | IN | NOT_IN | CONTAINS | STARTS_WITH | ENDS_WITH

text \<open>
  The operand of a filter is a scalar or, for \<^verbatim>\<open>IN\<close> and \<^verbatim>\<open>NOT_IN\<close>, a list of
  scalars. The field \<^verbatim>\<open>value\<close> of the source is named \<open>operand\<close> here and the field
  \<^verbatim>\<open>distinct\<close> is named \<open>distinct_flag\<close>, since the source's names are taken by Isabelle.
\<close>

datatype filter_operand = Scalar pyval | Items "pyval list"

record QueryFilter =
  field :: string
  operator :: Operator
  operand :: filter_operand

record QueryBuilder =
  filters :: "QueryFilter list"
  order_by_fields :: "(string \<times> bool) list"
  skip_count :: int
  take_count :: "int option"
  select_fields :: "string list option"
  group_by_fields :: "string list option"
  distinct_flag :: bool
  count_only :: bool

text \<open>\<^verbatim>\<open>QueryBuilder()\<close>: the dataclass defaults.\<close>

definition new_builder :: QueryBuilder where
  "new_builder =
     \<lparr>filters = [], order_by_fields = [], skip_count = 0, take_count = None,
      select_fields = None, group_by_fields = None, distinct_flag = False,
      count_only = False\<rparr>"

definition where_filter :: "string \<Rightarrow> Operator \<Rightarrow> filter_operand \<Rightarrow> QueryBuilder \<Rightarrow> QueryBuilder" where
  "where_filter f op v b =
     b\<lparr>filters := filters b @ [\<lparr>field = f, operator = op, operand = v\<rparr>]\<rparr>"

definition order_by :: "string \<Rightarrow> bool \<Rightarrow> QueryBuilder \<Rightarrow> QueryBuilder" where
  "order_by f descending b = b\<lparr>order_by_fields := order_by_fields b @ [(f, descending)]\<rparr>"

definition skip :: "int \<Rightarrow> QueryBuilder \<Rightarrow> QueryBuilder" where
  "skip n b = b\<lparr>skip_count := n\<rparr>"

definition take_rows :: "int \<Rightarrow> QueryBuilder \<Rightarrow> QueryBuilder" where
  "take_rows n b = b\<lparr>take_count := Some n\<rparr>"

section \<open>The audit chain (\<^verbatim>\<open>audit/AuditStorage.py\<close>)\<close>





section \<open>Field encryption (\<^verbatim>\<open>security.py\<close>)\<close>

text \<open>
  \<^verbatim>\<open>FieldEncryption._decrypt_value\<close> calls four libraries, which are parameters of the
  model: whether the \<^verbatim>\<open>cryptography\<close> package can be imported, \<^verbatim>\<open>base64.b64decode\<close>,
  \<^verbatim>\<open>AESGCM(key).decrypt(nonce, ciphertext, None)\<close>, \<^verbatim>\<open>bytes.decode("utf-8")\<close> and
  \<^verbatim>\<open>json.loads\<close>. Each returns \<open>None\<close> where the library raises.
\<close>

record crypto_libs =
  cryptography_installed :: bool
  b64decode :: "string \<Rightarrow> string option"
  aesgcm_decrypt :: "string \<Rightarrow> string \<Rightarrow> string \<Rightarrow> string option"
  utf8_decode :: "string \<Rightarrow> string option"
  json_loads_value :: "string \<Rightarrow> pyval option"

text \<open>
  The source rebinds \<^verbatim>\<open>encrypted_data\<close> to the text after the ten characters of the
  marker (\<^verbatim>\<open>encrypted_data = encrypted_data[10:]\<close>) inside the \<^verbatim>\<open>try\<close>; the handler
  \<^verbatim>\<open>except Exception\<close> returns that variable. \<open>payload\<close> is the rebound variable.
\<close>

definition decrypt_value :: "crypto_libs \<Rightarrow> string \<Rightarrow> pyval \<Rightarrow> error + pyval" where
  "decrypt_value L encryption_key encrypted_data =
     (case encrypted_data of
        PStr s \<Rightarrow>
          if \<not> prefix ''encrypted:'' s then Inr encrypted_data
          else if \<not> cryptography_installed L then Inl ImportError
          else
            (let payload = drop 10 s in
             case b64decode L payload of
               None \<Rightarrow> Inr (PStr payload)
             | Some combined \<Rightarrow>
                 (case aesgcm_decrypt L encryption_key (take 12 combined) (drop 12 combined) of
                    None \<Rightarrow> Inr (PStr payload)
                  | Some plaintext_bytes \<Rightarrow>
                      (case utf8_decode L plaintext_bytes of
                         None \<Rightarrow> Inr (PStr payload)
                       | Some plaintext \<Rightarrow>
                           (case json_loads_value L plaintext of
                              Some v \<Rightarrow> Inr v
                            | None \<Rightarrow> Inr (PStr plaintext)))))
      | _ \<Rightarrow> Inr encrypted_data)"

text \<open>
  A payload cannot be decrypted when the base64 decoding, the authenticated decryption
  or the UTF-8 decoding of the plaintext raises.
\<close>

definition undecryptable :: "crypto_libs \<Rightarrow> string \<Rightarrow> string \<Rightarrow> bool" where
  "undecryptable L encryption_key payload =
     (case b64decode L payload of
        None \<Rightarrow> True
      | Some combined \<Rightarrow>
          (case aesgcm_decrypt L encryption_key (take 12 combined) (drop 12 combined) of
             None \<Rightarrow> True
           | Some plaintext_bytes \<Rightarrow> utf8_decode L plaintext_bytes = None))"

text \<open>
  A library environment in which every authenticated decryption fails, as it does for a
  ciphertext written under another key; base64 and UTF-8 decoding succeed.
\<close>

definition rotated_key_libs :: crypto_libs where
  "rotated_key_libs =
     \<lparr>cryptography_installed = True,
      b64decode = (\<lambda>s. Some s),
      aesgcm_decrypt = (\<lambda>k nonce ciphertext. None),
      utf8_decode = (\<lambda>b. Some b),
      json_loads_value = (\<lambda>s. None)\<rparr>"

section \<open>Identifier validation (\<^verbatim>\<open>utils.py\<close>)\<close>

text \<open>The character classes \<^verbatim>\<open>[a-zA-Z0-9_]\<close> and \<^verbatim>\<open>[a-zA-Z0-9_-]\<close>.\<close>

definition is_alnum_underscore :: "char \<Rightarrow> bool" where
  "is_alnum_underscore c =
     (let n = (of_char c :: nat)
      in (97 \<le> n \<and> n \<le> 122) \<or> (65 \<le> n \<and> n \<le> 90) \<or> (48 \<le> n \<and> n \<le> 57) \<or> n = 95)"

definition is_alnum_underscore_hyphen :: "char \<Rightarrow> bool" where
  "is_alnum_underscore_hyphen c = (is_alnum_underscore c \<or> (of_char c :: nat) = 45)"

text \<open>
  \<^verbatim>\<open>re.match(r'^[...]+$', s)\<close> for a character class that does not hold the line feed:
  the class consumes a non-empty run of characters from the start of the string, and
  \<^verbatim>\<open>$\<close> (without \<^verbatim>\<open>re.MULTILINE\<close>) matches at the end of the string and also just
  before a line feed that ends the string.
\<close>

definition re_match_class_plus :: "(char \<Rightarrow> bool) \<Rightarrow> string \<Rightarrow> bool" where
  "re_match_class_plus cls s =
     (let rest = dropWhile cls s
      in takeWhile cls s \<noteq> [] \<and> (rest = [] \<or> rest = [CHR 0x0A]))"

definition validate_table_name :: "string \<Rightarrow> error + string" where
  "validate_table_name table =
     (if \<not> re_match_class_plus is_alnum_underscore_hyphen table then Inl ValidationError
      else Inr table)"

definition validate_column_name :: "string \<Rightarrow> error + string" where
  "validate_column_name column =
     (if \<not> re_match_class_plus is_alnum_underscore column then Inl ValidationError
      else Inr column)"

text \<open>A loop that validates each name in turn; the first rejected name raises.\<close>

fun validate_column_names :: "string list \<Rightarrow> error + unit" where
  "validate_column_names [] = Inr ()"
| "validate_column_names (f # fs) =
     (case validate_column_name f of
        Inl e \<Rightarrow> Inl e
      | Inr _ \<Rightarrow> validate_column_names fs)"

section \<open>SQL text generation (\<^verbatim>\<open>query.py\<close>, \<^verbatim>\<open>adapters/PostgreSQLAdapter.py\<close>)\<close>

text \<open>\<^verbatim>\<open>sep.join(xs)\<close>.\<close>

fun join :: "string \<Rightarrow> string list \<Rightarrow> string" where
  "join sep [] = []"
| "join sep [x] = x"
| "join sep (x # y # zs) = x @ sep @ join sep (y # zs)"

text \<open>
  A bound parameter of a statement: a filter operand as it is, or the f-string
  \<^verbatim>\<open>f"%{value}%"\<close> of a pattern match, kept as its three parts.
\<close>

datatype sql_param = Bound filter_operand | Formatted string filter_operand string

text \<open>
  \<^verbatim>\<open>len(f.value)\<close> and \<^verbatim>\<open>params.extend(f.value)\<close> for \<^verbatim>\<open>IN\<close> and \<^verbatim>\<open>NOT_IN\<close>: a list
  gives its elements, a string its characters, and any other scalar has no length.
\<close>

definition operand_items :: "filter_operand \<Rightarrow> error + filter_operand list" where
  "operand_items v =
     (case v of
        Items xs \<Rightarrow> Inr (map Scalar xs)
      | Scalar (PStr s) \<Rightarrow> Inr (map (\<lambda>c. Scalar (PStr [c])) s)
      | Scalar _ \<Rightarrow> Inl TypeError)"

text \<open>One turn of the loop of \<^verbatim>\<open>to_sql_where\<close>: the clause and the parameters of a filter.\<close>

definition filter_clause :: "QueryFilter \<Rightarrow> error + (string \<times> sql_param list)" where
  "filter_clause f =
     (case operator f of
        EQ \<Rightarrow> Inr (field f @ '' = %s'', [Bound (operand f)])
      | NE \<Rightarrow> Inr (field f @ '' != %s'', [Bound (operand f)])
      | GT \<Rightarrow> Inr (field f @ '' > %s'', [Bound (operand f)])
      | GTE \<Rightarrow> Inr (field f @ '' >= %s'', [Bound (operand f)])
      | LT \<Rightarrow> Inr (field f @ '' < %s'', [Bound (operand f)])
      | LTE \<Rightarrow> Inr (field f @ '' <= %s'', [Bound (operand f)])
      | IN \<Rightarrow>
          (case operand_items (operand f) of
             Inl e \<Rightarrow> Inl e
           | Inr items \<Rightarrow>
               Inr (field f @ '' IN ('' @ join '','' (replicate (length items) ''%s'') @ '')'',
                    map Bound items))
      | NOT_IN \<Rightarrow>
          (case operand_items (operand f) of
             Inl e \<Rightarrow> Inl e
           | Inr items \<Rightarrow>
               Inr (field f @ '' NOT IN ('' @ join '','' (replicate (length items) ''%s'') @ '')'',
                    map Bound items))
      | CONTAINS \<Rightarrow> Inr (field f @ '' LIKE %s'', [Formatted ''%'' (operand f) ''%''])
      | STARTS_WITH \<Rightarrow> Inr (field f @ '' LIKE %s'', [Formatted [] (operand f) ''%''])
      | ENDS_WITH \<Rightarrow> Inr (field f @ '' LIKE %s'', [Formatted ''%'' (operand f) []]))"

fun where_clauses ::
  "QueryFilter list \<Rightarrow> string list \<Rightarrow> sql_param list \<Rightarrow> error + (string list \<times> sql_param list)" where
  "where_clauses [] clauses params = Inr (clauses, params)"
| "where_clauses (f # fs) clauses params =
     (case filter_clause f of
        Inl e \<Rightarrow> Inl e
      | Inr (c, ps) \<Rightarrow> where_clauses fs (clauses @ [c]) (params @ ps))"

definition to_sql_where :: "QueryBuilder \<Rightarrow> error + (string \<times> sql_param list)" where
  "to_sql_where b =
     (if filters b = [] then Inr ([], [])
      else
        (case where_clauses (filters b) [] [] of
           Inl e \<Rightarrow> Inl e
         | Inr (clauses, params) \<Rightarrow> Inr (join '' AND '' clauses, params)))"

text \<open>
  \<^verbatim>\<open>PostgreSQLAdapter.query_linq\<close> up to \<^verbatim>\<open>cursor.execute(sql, params)\<close>: the statement
  text and its parameters. The steps below are the body of the \<^verbatim>\<open>try\<close>, in the
  source's order; \<open>if xs\<close> on an optional list is true for a non-empty list.
\<close>

definition opt_list :: "'a list option \<Rightarrow> 'a list" where
  "opt_list xs = (case xs of None \<Rightarrow> [] | Some ys \<Rightarrow> ys)"

definition linq_select_head :: "string \<Rightarrow> QueryBuilder \<Rightarrow> error + string" where
  "linq_select_head table b =
     (if count_only b then Inr (''SELECT COUNT(*) FROM '' @ table)
      else if opt_list (select_fields b) \<noteq> [] then
        (case validate_column_names (opt_list (select_fields b)) of
           Inl e \<Rightarrow> Inl e
         | Inr _ \<Rightarrow>
             (let fields = join '', '' (opt_list (select_fields b))
              in if distinct_flag b then Inr (''SELECT DISTINCT '' @ fields @ '' FROM '' @ table)
                 else Inr (''SELECT '' @ fields @ '' FROM '' @ table)))
      else Inr (''SELECT * FROM '' @ table))"

definition linq_group_by :: "QueryBuilder \<Rightarrow> error + string" where
  "linq_group_by b =
     (if opt_list (group_by_fields b) \<noteq> [] then
        (case validate_column_names (opt_list (group_by_fields b)) of
           Inl e \<Rightarrow> Inl e
         | Inr _ \<Rightarrow> Inr ('' GROUP BY '' @ join '', '' (opt_list (group_by_fields b))))
      else Inr [])"

fun order_parts :: "(string \<times> bool) list \<Rightarrow> string list \<Rightarrow> error + string list" where
  "order_parts [] parts = Inr parts"
| "order_parts ((f, descending) # rest) parts =
     (case validate_column_name f of
        Inl e \<Rightarrow> Inl e
      | Inr _ \<Rightarrow>
          order_parts rest (parts @ [f @ '' '' @ (if descending then ''DESC'' else ''ASC'')]))"

definition linq_order_by :: "QueryBuilder \<Rightarrow> error + string" where
  "linq_order_by b =
     (if order_by_fields b \<noteq> [] then
        (case order_parts (order_by_fields b) [] of
           Inl e \<Rightarrow> Inl e
         | Inr parts \<Rightarrow> Inr ('' ORDER BY '' @ join '', '' parts))
      else Inr [])"

definition linq_limit_offset :: "QueryBuilder \<Rightarrow> string \<times> sql_param list" where
  "linq_limit_offset b =
     (let (sql1, params1) =
            (case take_count b of
               None \<Rightarrow> ([], [])
             | Some n \<Rightarrow> if n \<noteq> 0 then ('' LIMIT %s'', [Bound (Scalar (PInt n))]) else ([], []))
      in if skip_count b \<noteq> 0
         then (sql1 @ '' OFFSET %s'', params1 @ [Bound (Scalar (PInt (skip_count b)))])
         else (sql1, params1))"

definition linq_statement :: "string \<Rightarrow> QueryBuilder \<Rightarrow> error + (string \<times> sql_param list)" where
  "linq_statement table b =
     (case linq_select_head table b of
        Inl e \<Rightarrow> Inl e
      | Inr head \<Rightarrow>
          (case to_sql_where b of
             Inl e \<Rightarrow> Inl e
           | Inr (where_clause, where_params) \<Rightarrow>
               (case linq_group_by b of
                  Inl e \<Rightarrow> Inl e
                | Inr group_sql \<Rightarrow>
                    (case linq_order_by b of
                       Inl e \<Rightarrow> Inl e
                     | Inr order_sql \<Rightarrow>
                         (let (page_sql, page_params) = linq_limit_offset b
                          in Inr (head
                                  @ (if where_clause \<noteq> [] then '' WHERE '' @ where_clause else [])
                                  @ group_sql @ order_sql @ page_sql,
                                  (if where_clause \<noteq> [] then where_params else []) @ page_params))))))"

text \<open>
  The table name is validated before the \<^verbatim>\<open>try\<close>, so its \<^verbatim>\<open>ValidationError\<close> reaches the
  caller. An exception inside the \<^verbatim>\<open>try\<close> is raised again as \<^verbatim>\<open>DatabaseError\<close>; the
  generation of the text is deterministic, so the three attempts of the \<^verbatim>\<open>retry\<close>
  decorator end in the same error.
\<close>

definition pg_query_linq_statement ::
  "string \<Rightarrow> QueryBuilder \<Rightarrow> error + (string \<times> sql_param list)" where
  "pg_query_linq_statement table b =
     (case validate_table_name table of
        Inl e \<Rightarrow> Inl e
      | Inr t \<Rightarrow>
          (case linq_statement t b of
             Inl e \<Rightarrow> Inl DatabaseError
           | Inr r \<Rightarrow> Inr r))"

section \<open>Python's \<^verbatim>\<open>str\<close> on scalars\<close>

definition digit_char :: "nat \<Rightarrow> char" where
  "digit_char d = ''0123456789'' ! d"

fun str_of_nat :: "nat \<Rightarrow> string" where
  "str_of_nat n =
     (if n < 10 then [digit_char n] else str_of_nat (n div 10) @ [digit_char (n mod 10)])"

declare str_of_nat.simps [simp del]

definition str_of_int :: "int \<Rightarrow> string" where
  "str_of_int i = (if i < 0 then CHR ''-'' # str_of_nat (nat (- i)) else str_of_nat (nat i))"

fun py_str :: "pyval \<Rightarrow> string" where
  "py_str PNone = ''None''"
| "py_str (PBool b) = (if b then ''True'' else ''False'')"
| "py_str (PInt i) = str_of_int i"
| "py_str (PStr s) = s"

section \<open>The retry decorator (\<^verbatim>\<open>retry.py\<close>)\<close>

text \<open>
  \<^verbatim>\<open>retry(max_attempts, delay, backoff, exceptions)\<close> wraps a function. The wrapped
  function acts on a state \<open>'s\<close> and returns a result or raises; \<open>catches\<close> says whether
  an exception is an instance of one of \<^verbatim>\<open>exceptions\<close>. The loop runs while
  \<^verbatim>\<open>attempt < max_attempts\<close>: a result is returned at once, an exception outside
  \<^verbatim>\<open>exceptions\<close> propagates at once, and a caught exception is raised again when the
  attempts are used up and otherwise leads to the next turn. A loop that ends without
  a turn makes the wrapper return \<^verbatim>\<open>None\<close> (\<open>Inr None\<close>). The sleeps between attempts
  and the metrics hooks (which do nothing) are not modelled.
\<close>

function retry_loop ::
  "int \<Rightarrow> (error \<Rightarrow> bool) \<Rightarrow> ('s \<Rightarrow> (error + 'a) \<times> 's) \<Rightarrow> int \<Rightarrow> 's \<Rightarrow> (error + 'a option) \<times> 's" where
  "retry_loop max_attempts catches func attempt s =
     (if attempt < max_attempts then
        (case func s of
           (Inr result, s') \<Rightarrow> (Inr (Some result), s')
         | (Inl e, s') \<Rightarrow>
             if catches e then
               (if attempt + 1 \<ge> max_attempts then (Inl e, s')
                else retry_loop max_attempts catches func (attempt + 1) s')
             else (Inl e, s'))
      else (Inr None, s))"
  by pat_completeness auto
termination
  by (relation "measure (\<lambda>(max_attempts, catches, func, attempt, s). nat (max_attempts - attempt))")
     auto

declare retry_loop.simps [simp del]

definition retry ::
  "int \<Rightarrow> (error \<Rightarrow> bool) \<Rightarrow> ('s \<Rightarrow> (error + 'a) \<times> 's) \<Rightarrow> 's \<Rightarrow> (error + 'a option) \<times> 's" where
  "retry max_attempts catches func s = retry_loop max_attempts catches func 0 s"

section \<open>The overflow-aware key-value engine (\<^verbatim>\<open>base/NoSQLKVAdapter.py\<close>)\<close>

subsection \<open>Values outside JSON (\<^verbatim>\<open>json_safe.py\<close>)\<close>

text \<open>
  The payload of a write is a Python dictionary whose values need not be JSON values.
  A value of a payload is a JSON scalar, a \<^verbatim>\<open>datetime\<close> (given by the date and the time
  of its text, \<^verbatim>\<open>YYYY-MM-DD\<close> and \<^verbatim>\<open>HH:MM:SS\<close> with its fraction and offset if any), or
  an object of another class that \<^verbatim>\<open>json\<close> cannot serialise (a \<^verbatim>\<open>Decimal\<close>, \<^verbatim>\<open>bytes\<close>, a
  set, ...), given by its \<^verbatim>\<open>str()\<close>. Lists, tuples, nested dictionaries and
  floating-point numbers are outside the model here as well.
\<close>

datatype pyobj = Json pyval | Datetime string string | Object string

type_synonym PyDict = "(string \<times> pyobj) list"



text \<open>\<^verbatim>\<open>str(obj)\<close>; for a \<^verbatim>\<open>datetime\<close> it is \<^verbatim>\<open>isoformat(sep=' ')\<close>.\<close>

fun obj_str :: "pyobj \<Rightarrow> string" where
  "obj_str (Json v) = py_str v"
| "obj_str (Datetime d t) = d @ '' '' @ t"
| "obj_str (Object s) = s"

text \<open>\<^verbatim>\<open>json_safe(obj)\<close>: \<^verbatim>\<open>obj.isoformat()\<close> for a \<^verbatim>\<open>datetime\<close>, \<^verbatim>\<open>str(obj)\<close> otherwise.\<close>

fun json_safe :: "pyobj \<Rightarrow> pyval" where
  "json_safe (Datetime d t) = PStr (d @ ''T'' @ t)"
| "json_safe obj = PStr (obj_str obj)"

text \<open>
  \<^verbatim>\<open>json.dumps(data, default=json_safe)\<close> serialises a JSON value as it is, and hands
  every other value to \<^verbatim>\<open>default\<close> and serialises what that returns. So the text it
  writes is the serialisation of the dictionary of JSON values below.
\<close>

definition encoded_value :: "pyobj \<Rightarrow> pyval" where
  "encoded_value obj = (case obj of Json v \<Rightarrow> v | _ \<Rightarrow> json_safe obj)"

definition json_image :: "PyDict \<Rightarrow> JsonDict" where
  "json_image data = map (\<lambda>(k, v). (k, encoded_value v)) data"

subsection \<open>Collaborators\<close>

text \<open>
  The object store that holds overflow blobs, by its contract \<^verbatim>\<open>put(key, bytes)\<close>,
  \<^verbatim>\<open>get(key) \<rightarrow> bytes\<close>. \<open>blobs\<close> is its content; when it is not \<open>available\<close> every call
  raises, and \<^verbatim>\<open>get\<close> raises for a key it does not hold. \<open>fetched\<close> is not a field of
  the source: it records the key of every \<^verbatim>\<open>get\<close> call, in order, so that the number
  of fetches can be stated.
\<close>

record object_storage =
  blobs :: "string \<Rightarrow> string option"
  available :: bool
  fetched :: "string list"


definition os_get :: "object_storage \<Rightarrow> string \<Rightarrow> string option \<times> object_storage" where
  "os_get os key =
     (let os' = os\<lparr>fetched := fetched os @ [key]\<rparr>
      in if available os then (blobs os key, os') else (None, os'))"

text \<open>
  The library functions the engine calls are parameters of the model: the encoder of
  \<^verbatim>\<open>json.dumps(...).encode()\<close> on a dictionary of JSON values, the same with
  \<^verbatim>\<open>sort_keys=True\<close>, \<^verbatim>\<open>json.loads(blob.decode())\<close> (\<open>None\<close> where decoding or parsing
  raises), \<^verbatim>\<open>hashlib.md5(bytes).hexdigest()\<close> and \<^verbatim>\<open>template.format(**data)\<close> (which
  raises \<^verbatim>\<open>KeyError\<close> for a missing field, or another error for a malformed template).
  \<^verbatim>\<open>json.dumps(data, default=json_safe).encode()\<close> on a payload is
  \<open>json_dumps L (json_image data)\<close>.
\<close>

record py_libs =
  json_dumps :: "JsonDict \<Rightarrow> string"
  json_dumps_sorted :: "JsonDict \<Rightarrow> string"
  json_loads :: "string \<Rightarrow> JsonDict option"
  md5_hexdigest :: "string \<Rightarrow> string"
  format_template :: "string \<Rightarrow> PyDict \<Rightarrow> error + string"

text \<open>
  The four abstract methods a provider implements (\<^verbatim>\<open>_put_raw\<close>, \<^verbatim>\<open>_get_raw\<close>,
  \<^verbatim>\<open>_query_raw\<close>, \<^verbatim>\<open>_delete_raw\<close>), over the provider's own state \<open>'b\<close>. The
  \<^verbatim>\<open>model\<close> argument is part of the provider here.
\<close>

type_synonym Lookup = "(string \<times> filter_operand) list"

record 'b raw_ops =
  put_raw :: "string \<Rightarrow> string \<Rightarrow> PyDict \<Rightarrow> 'b \<Rightarrow> (error + JsonDict) \<times> 'b"
  get_raw :: "string \<Rightarrow> string \<Rightarrow> 'b \<Rightarrow> (error + JsonDict option) \<times> 'b"
  query_raw :: "Lookup \<Rightarrow> int option \<Rightarrow> 'b \<Rightarrow> (error + JsonDict list) \<times> 'b"
  delete_raw :: "string \<Rightarrow> string \<Rightarrow> string option \<Rightarrow> 'b \<Rightarrow> (error + JsonDict) \<times> 'b"

subsection \<open>The adapter and its state\<close>




text \<open>The state a call acts on: the provider's state and the object store.\<close>

record 'b kv_state =
  provider :: 'b
  object_store :: object_storage

subsection \<open>\<^verbatim>\<open>_get_pk_rk\<close>\<close>




subsection \<open>\<^verbatim>\<open>_check_overflow\<close> and \<^verbatim>\<open>_retrieve_overflow\<close>\<close>

text \<open>The stub that takes the place of an oversized record.\<close>

definition overflow_stub :: "string \<Rightarrow> nat \<Rightarrow> string \<Rightarrow> JsonDict" where
  "overflow_stub blob_key data_size blob_id =
     [(''_overflow'', PBool True),
      (''_blob_key'', PStr blob_key),
      (''_size'', PInt (int data_size)),
      (''_checksum'', PStr blob_id)]"



text \<open>
  The body of \<^verbatim>\<open>_retrieve_overflow\<close>. Everything after the test of \<^verbatim>\<open>_overflow\<close> runs
  inside \<^verbatim>\<open>try: ... except Exception as e: raise StorageError(...)\<close>, so the missing
  \<^verbatim>\<open>_blob_key\<close>, a failing \<^verbatim>\<open>get\<close>, a blob that does not decode or parse, and the
  \<^verbatim>\<open>StorageError\<close> of the checksum test itself all leave as \<^verbatim>\<open>StorageError\<close>. The blob
  is parsed before its checksum is compared. A \<^verbatim>\<open>_blob_key\<close> that is not a string
  is taken to make \<^verbatim>\<open>get\<close> raise.
\<close>

definition retrieve_overflow_body ::
  "py_libs \<Rightarrow> JsonDict \<Rightarrow> object_storage \<Rightarrow> (error + JsonDict) \<times> object_storage" where
  "retrieve_overflow_body L data os =
     (if \<not> py_truthy (dict_get data ''_overflow'') then (Inr data, os)
      else
        (case map_of data ''_blob_key'' of
           Some (PStr blob_key) \<Rightarrow>
             (case os_get os blob_key of
                (None, os') \<Rightarrow> (Inl StorageError, os')
              | (Some blob_data, os') \<Rightarrow>
                  (case json_loads L blob_data of
                     None \<Rightarrow> (Inl StorageError, os')
                   | Some retrieved \<Rightarrow>
                       (let checksum = md5_hexdigest L blob_data
                        in if \<not> py_eq (PStr checksum) (dict_get data ''_checksum'')
                           then (Inl StorageError, os')
                           else (Inr retrieved, os'))))
         | _ \<Rightarrow> (Inl StorageError, os)))"

text \<open>\<^verbatim>\<open>@retry(max_attempts=3, delay=1.0, exceptions=(StorageError,))\<close>\<close>

definition retrieve_overflow ::
  "py_libs \<Rightarrow> JsonDict \<Rightarrow> object_storage \<Rightarrow> (error + JsonDict option) \<times> object_storage" where
  "retrieve_overflow L data os =
     retry 3 (\<lambda>e. e = StorageError) (retrieve_overflow_body L data) os"

subsection \<open>\<^verbatim>\<open>put\<close> and \<^verbatim>\<open>query\<close>\<close>

text \<open>
  A value that a decorated method returned and the caller uses: the wrapper's \<^verbatim>\<open>None\<close>
  cannot be unpacked or used as a record and raises \<^verbatim>\<open>TypeError\<close> at the caller.
\<close>

definition returned :: "error + 'a option \<Rightarrow> error + 'a" where
  "returned r = (case r of Inl e \<Rightarrow> Inl e | Inr None \<Rightarrow> Inl TypeError | Inr (Some v) \<Rightarrow> Inr v)"


text \<open>
  \<^verbatim>\<open>[self._retrieve_overflow(r) for r in results]\<close>: the records are resolved one by
  one, in order, and the first one that raises ends the comprehension.
\<close>

fun retrieve_all ::
  "py_libs \<Rightarrow> JsonDict list \<Rightarrow> object_storage \<Rightarrow> (error + JsonDict list) \<times> object_storage" where
  "retrieve_all L [] os = (Inr [], os)"
| "retrieve_all L (r # rs) os =
     (case retrieve_overflow L r os of
        (res, os') \<Rightarrow>
          (case returned res of
             Inl e \<Rightarrow> (Inl e, os')
           | Inr d \<Rightarrow>
               (case retrieve_all L rs os' of
                  (Inl e, os'') \<Rightarrow> (Inl e, os'')
                | (Inr ds, os'') \<Rightarrow> (Inr (d # ds), os''))))"

definition query ::
  "py_libs \<Rightarrow> 'b raw_ops \<Rightarrow> Lookup option \<Rightarrow> int option \<Rightarrow> 'b kv_state
     \<Rightarrow> (error + JsonDict list) \<times> 'b kv_state" where
  "query L ops q limit st =
     (case query_raw ops (case q of None \<Rightarrow> [] | Some l \<Rightarrow> l) limit (provider st) of
        (Inl e, p') \<Rightarrow> (Inl e, st\<lparr>provider := p'\<rparr>)
      | (Inr results, p') \<Rightarrow>
          (case retrieve_all L results (object_store st) of
             (res, os') \<Rightarrow> (res, \<lparr>provider = p', object_store = os'\<rparr>)))"

subsection \<open>Stand-ins for the libraries\<close>

text \<open>
  To run the model on concrete inputs the library parameters need values. These
  stand-ins are used only in the examples: the serialiser writes \<open>key=value;\<close> for
  every field, the parser knows the serialisation of one document \<open>doc\<close> (or, for
  \<open>reading_libs\<close>, of each document of a list), the digest of a byte string is its
  reversal, and no template has its fields.
\<close>

definition example_dumps :: "JsonDict \<Rightarrow> string" where
  "example_dumps d = concat (map (\<lambda>(k, v). k @ ''='' @ py_str v @ '';'') d)"

definition example_libs :: "JsonDict \<Rightarrow> py_libs" where
  "example_libs doc =
     \<lparr>json_dumps = example_dumps,
      json_dumps_sorted = example_dumps,
      json_loads = (\<lambda>b. if b = example_dumps doc then Some doc else None),
      md5_hexdigest = rev,
      format_template = (\<lambda>t d. Inl KeyError)\<rparr>"


text \<open>
  The conditions of a lookup as a store evaluates them: \<^verbatim>\<open>column = value\<close> for a
  scalar and \<^verbatim>\<open>column IN (values)\<close> for a list, where a comparison with a null column
  or a null value is never true.
\<close>

definition sql_equal :: "pyval \<Rightarrow> pyval \<Rightarrow> bool" where
  "sql_equal column v = (column \<noteq> PNone \<and> v \<noteq> PNone \<and> column = v)"

definition sql_condition :: "JsonDict \<Rightarrow> string \<times> filter_operand \<Rightarrow> bool" where
  "sql_condition row c =
     (case snd c of
        Scalar v \<Rightarrow> sql_equal (dict_get row (fst c)) v
      | Items vs \<Rightarrow> list_ex (sql_equal (dict_get row (fst c))) vs)"

text \<open>
  A provider that keeps its rows in a list keyed by partition key and row key; it keeps
  a record as the dictionary of JSON values that is its serialisation. A query returns
  the rows that satisfy the lookup, in the order of the list, and no more than a
  positive \<open>limit\<close>.
\<close>

definition memory_ops :: "((string \<times> string) \<times> JsonDict) list raw_ops" where
  "memory_ops =
     \<lparr>put_raw = (\<lambda>pk rk data rows.
                   (Inr (json_image data), rows @ [((pk, rk), json_image data)])),
      get_raw = (\<lambda>pk rk rows. (Inr (map_of rows (pk, rk)), rows)),
      query_raw =
        (\<lambda>filters limit rows.
           (Inr (let found = filter (\<lambda>r. list_all (sql_condition r) filters) (map snd rows)
                 in case limit of
                      Some l \<Rightarrow> if l > 0 then take (nat l) found else found
                    | None \<Rightarrow> found),
            rows)),
      delete_raw = (\<lambda>pk rk etag rows. (Inr [], filter (\<lambda>r. fst r \<noteq> (pk, rk)) rows))\<rparr>"






definition small_record :: JsonDict where
  "small_record = [(''id'', PInt 2)]"

definition empty_store :: object_storage where
  "empty_store = \<lparr>blobs = Map.empty, available = True, fetched = []\<rparr>"

definition empty_kv_state :: "((string \<times> string) \<times> JsonDict) list kv_state" where
  "empty_kv_state = \<lparr>provider = [], object_store = empty_store\<rparr>"

text \<open>
  A stub whose checksum is not the digest of the blob stored under its key, and the
  store that holds that blob.
\<close>

definition tampered_stub :: JsonDict where
  "tampered_stub = overflow_stub ''overflow/k.json'' 5 ''abc''"

definition tampered_store :: object_storage where
  "tampered_store =
     \<lparr>blobs = [''overflow/k.json'' \<mapsto> example_dumps small_record],
      available = True, fetched = []\<rparr>"

section \<open>The in-memory pipeline (\<^verbatim>\<open>base/NoSQLKVAdapter.py\<close>)\<close>

subsection \<open>Python's comparisons and membership on scalars\<close>

text \<open>
  \<^verbatim>\<open>a < b\<close> and \<^verbatim>\<open>a <= b\<close>: numbers compare with numbers, strings with strings (by
  code point, a proper prefix first), and every other pair raises \<^verbatim>\<open>TypeError\<close>
  (\<open>None\<close>), \<^verbatim>\<open>None < None\<close> included. \<^verbatim>\<open>a > b\<close> is \<open>py_lt b a\<close> and \<^verbatim>\<open>a >= b\<close> is
  \<open>py_le b a\<close>.
\<close>

fun py_lt :: "pyval \<Rightarrow> pyval \<Rightarrow> bool option" where
  "py_lt (PStr s) (PStr t) = Some (s < t)"
| "py_lt a b =
     (case (py_num a, py_num b) of
        (Some x, Some y) \<Rightarrow> Some (x < y)
      | _ \<Rightarrow> None)"

fun py_le :: "pyval \<Rightarrow> pyval \<Rightarrow> bool option" where
  "py_le (PStr s) (PStr t) = Some (s \<le> t)"
| "py_le a b =
     (case (py_num a, py_num b) of
        (Some x, Some y) \<Rightarrow> Some (x \<le> y)
      | _ \<Rightarrow> None)"

text \<open>
  A comparison of a record's value with a filter operand; a scalar and a list never
  compare.
\<close>

definition operand_eq :: "pyval \<Rightarrow> filter_operand \<Rightarrow> bool" where
  "operand_eq v rhs = (case rhs of Scalar w \<Rightarrow> py_eq v w | Items xs \<Rightarrow> False)"

definition operand_cmp ::
  "(pyval \<Rightarrow> pyval \<Rightarrow> bool option) \<Rightarrow> pyval \<Rightarrow> filter_operand \<Rightarrow> error + bool" where
  "operand_cmp cmp v rhs =
     (case rhs of
        Scalar w \<Rightarrow> (case cmp v w of None \<Rightarrow> Inl TypeError | Some r \<Rightarrow> Inr r)
      | Items xs \<Rightarrow> Inl TypeError)"

text \<open>
  \<^verbatim>\<open>value in f.value\<close>: membership in a list by \<^verbatim>\<open>==\<close>; in a string, the substring test,
  which needs a string on the left; anything else is not iterable.
\<close>

definition operand_contains :: "filter_operand \<Rightarrow> pyval \<Rightarrow> error + bool" where
  "operand_contains rhs v =
     (case rhs of
        Items xs \<Rightarrow> Inr (list_ex (py_eq v) xs)
      | Scalar (PStr s) \<Rightarrow> (case v of PStr t \<Rightarrow> Inr (sublist t s) | _ \<Rightarrow> Inl TypeError)
      | Scalar _ \<Rightarrow> Inl TypeError)"

text \<open>
  \<^verbatim>\<open>f.value in str(value)\<close>, \<^verbatim>\<open>str(value).startswith(f.value)\<close> and
  \<^verbatim>\<open>str(value).endswith(f.value)\<close>: each needs a string operand.
\<close>

definition str_test ::
  "(string \<Rightarrow> string \<Rightarrow> bool) \<Rightarrow> filter_operand \<Rightarrow> pyval \<Rightarrow> error + bool" where
  "str_test test rhs v =
     (case rhs of
        Scalar (PStr s) \<Rightarrow> Inr (test s (py_str v))
      | _ \<Rightarrow> Inl TypeError)"

subsection \<open>\<^verbatim>\<open>_apply_filters\<close>\<close>

text \<open>
  One turn of the inner loop: whether the filter sets \<^verbatim>\<open>match = False\<close> for the item.
  \<^verbatim>\<open>value and value > f.value\<close> does not compare when \<^verbatim>\<open>value\<close> is falsy, and
  \<^verbatim>\<open>not value or ...\<close> does not test when \<^verbatim>\<open>value\<close> is falsy.
\<close>

definition filter_rejects :: "QueryFilter \<Rightarrow> JsonDict \<Rightarrow> error + bool" where
  "filter_rejects f item =
     (let v = dict_get item (field f)
      in case operator f of
           EQ \<Rightarrow> Inr (\<not> operand_eq v (operand f))
         | NE \<Rightarrow> Inr (operand_eq v (operand f))
         | GT \<Rightarrow>
             if \<not> py_truthy v then Inr True
             else (case operand_cmp (\<lambda>a b. py_lt b a) v (operand f) of
                     Inl e \<Rightarrow> Inl e | Inr r \<Rightarrow> Inr (\<not> r))
         | GTE \<Rightarrow>
             if \<not> py_truthy v then Inr True
             else (case operand_cmp (\<lambda>a b. py_le b a) v (operand f) of
                     Inl e \<Rightarrow> Inl e | Inr r \<Rightarrow> Inr (\<not> r))
         | LT \<Rightarrow>
             if \<not> py_truthy v then Inr True
             else (case operand_cmp py_lt v (operand f) of
                     Inl e \<Rightarrow> Inl e | Inr r \<Rightarrow> Inr (\<not> r))
         | LTE \<Rightarrow>
             if \<not> py_truthy v then Inr True
             else (case operand_cmp py_le v (operand f) of
                     Inl e \<Rightarrow> Inl e | Inr r \<Rightarrow> Inr (\<not> r))
         | IN \<Rightarrow>
             (case operand_contains (operand f) v of
                Inl e \<Rightarrow> Inl e | Inr r \<Rightarrow> Inr (\<not> r))
         | NOT_IN \<Rightarrow> operand_contains (operand f) v
         | CONTAINS \<Rightarrow>
             if \<not> py_truthy v then Inr True
             else (case str_test sublist (operand f) v of
                     Inl e \<Rightarrow> Inl e | Inr r \<Rightarrow> Inr (\<not> r))
         | STARTS_WITH \<Rightarrow>
             if \<not> py_truthy v then Inr True
             else (case str_test prefix (operand f) v of
                     Inl e \<Rightarrow> Inl e | Inr r \<Rightarrow> Inr (\<not> r))
         | ENDS_WITH \<Rightarrow>
             if \<not> py_truthy v then Inr True
             else (case str_test suffix (operand f) v of
                     Inl e \<Rightarrow> Inl e | Inr r \<Rightarrow> Inr (\<not> r)))"

text \<open>The inner loop over the filters: the first filter that rejects the item breaks.\<close>

fun item_matches :: "QueryFilter list \<Rightarrow> JsonDict \<Rightarrow> error + bool" where
  "item_matches [] item = Inr True"
| "item_matches (f # fs) item =
     (case filter_rejects f item of
        Inl e \<Rightarrow> Inl e
      | Inr True \<Rightarrow> Inr False
      | Inr False \<Rightarrow> item_matches fs item)"

text \<open>The outer loop over the items.\<close>

fun filter_items :: "QueryFilter list \<Rightarrow> JsonDict list \<Rightarrow> JsonDict list \<Rightarrow> error + JsonDict list" where
  "filter_items fs [] filtered = Inr filtered"
| "filter_items fs (item # items) filtered =
     (case item_matches fs item of
        Inl e \<Rightarrow> Inl e
      | Inr True \<Rightarrow> filter_items fs items (filtered @ [item])
      | Inr False \<Rightarrow> filter_items fs items filtered)"

definition apply_filters :: "JsonDict list \<Rightarrow> QueryBuilder \<Rightarrow> error + JsonDict list" where
  "apply_filters results b =
     (if filters b = [] then Inr results else filter_items (filters b) results [])"

subsection \<open>\<^verbatim>\<open>_apply_ordering\<close>\<close>

text \<open>
  \<^verbatim>\<open>sorted(results, key=k, reverse=desc)\<close>. Python's sort is stable and compares keys
  with \<^verbatim>\<open><\<close>. A list of fewer than two elements is returned without a comparison.
  Otherwise the comparisons succeed exactly when all keys are numbers or all keys are
  strings (any two keys of one kind compare, and a sort cannot order two keys without
  a chain of comparisons between them); if not, \<^verbatim>\<open>TypeError\<close> is raised. With
  \<^verbatim>\<open>reverse=True\<close> the list is reversed, sorted and reversed again, which keeps equal
  keys in their original order. The stable sort of a list by a key is \<^const>\<open>sort_key\<close>.
\<close>

definition num_of :: "pyval \<Rightarrow> int" where
  "num_of v = (case py_num v of Some n \<Rightarrow> n | None \<Rightarrow> 0)"

definition str_of :: "pyval \<Rightarrow> string" where
  "str_of v = (case v of PStr s \<Rightarrow> s | _ \<Rightarrow> [])"

definition is_num :: "pyval \<Rightarrow> bool" where
  "is_num v = (py_num v \<noteq> None)"

definition is_str :: "pyval \<Rightarrow> bool" where
  "is_str v = (case v of PStr s \<Rightarrow> True | _ \<Rightarrow> False)"

definition stable_sort :: "('a \<Rightarrow> 'k::linorder) \<Rightarrow> bool \<Rightarrow> 'a list \<Rightarrow> 'a list" where
  "stable_sort k reverse xs = (if reverse then rev (sort_key k (rev xs)) else sort_key k xs)"

definition py_sorted :: "('a \<Rightarrow> pyval) \<Rightarrow> bool \<Rightarrow> 'a list \<Rightarrow> error + 'a list" where
  "py_sorted key reverse xs =
     (if length xs < 2 then Inr xs
      else if list_all (\<lambda>x. is_num (key x)) xs then Inr (stable_sort (\<lambda>x. num_of (key x)) reverse xs)
      else if list_all (\<lambda>x. is_str (key x)) xs then Inr (stable_sort (\<lambda>x. str_of (key x)) reverse xs)
      else Inl TypeError)"

text \<open>The sort key \<^verbatim>\<open>lambda x: x.get(field, '')\<close>.\<close>

definition order_key :: "string \<Rightarrow> JsonDict \<Rightarrow> pyval" where
  "order_key f x = dict_get_default x f (PStr [])"

text \<open>The loop \<^verbatim>\<open>for field, desc in reversed(builder.order_by_fields)\<close>, over the reversed list.\<close>

fun ordering_loop :: "(string \<times> bool) list \<Rightarrow> JsonDict list \<Rightarrow> error + JsonDict list" where
  "ordering_loop [] results = Inr results"
| "ordering_loop ((f, descending) # rest) results =
     (case py_sorted (order_key f) descending results of
        Inl e \<Rightarrow> Inl e
      | Inr sorted_results \<Rightarrow> ordering_loop rest sorted_results)"

definition apply_ordering :: "JsonDict list \<Rightarrow> QueryBuilder \<Rightarrow> error + JsonDict list" where
  "apply_ordering results b =
     (if order_by_fields b = [] then Inr results
      else ordering_loop (rev (order_by_fields b)) results)"

subsection \<open>\<^verbatim>\<open>_apply_pagination\<close>, \<^verbatim>\<open>_apply_projection\<close> and the distinct step\<close>

text \<open>Python's slices \<^verbatim>\<open>xs[n:]\<close> and \<^verbatim>\<open>xs[:n]\<close>; a negative index counts from the end.\<close>

definition slice_from :: "int \<Rightarrow> 'a list \<Rightarrow> 'a list" where
  "slice_from n xs =
     (if n \<ge> 0 then drop (nat n) xs else drop (nat (int (length xs) + n)) xs)"

definition slice_to :: "int \<Rightarrow> 'a list \<Rightarrow> 'a list" where
  "slice_to n xs =
     (if n \<ge> 0 then take (nat n) xs else take (nat (int (length xs) + n)) xs)"

definition apply_pagination :: "JsonDict list \<Rightarrow> QueryBuilder \<Rightarrow> JsonDict list" where
  "apply_pagination results b =
     (let skipped = (if skip_count b \<noteq> 0 then slice_from (skip_count b) results else results)
      in case take_count b of
           None \<Rightarrow> skipped
         | Some n \<Rightarrow> if n \<noteq> 0 then slice_to n skipped else skipped)"

definition apply_projection :: "JsonDict list \<Rightarrow> QueryBuilder \<Rightarrow> JsonDict list" where
  "apply_projection results b =
     (if opt_list (select_fields b) = [] then results
      else map (\<lambda>item. filter (\<lambda>(k, v). k \<in> set (opt_list (select_fields b))) item) results)"

text \<open>
  The loop of the distinct step: \<open>seen\<close> holds the serialisations met so far and
  \<open>unique\<close> the records kept.
\<close>

fun distinct_loop :: "py_libs \<Rightarrow> JsonDict list \<Rightarrow> string list \<Rightarrow> JsonDict list \<Rightarrow> JsonDict list" where
  "distinct_loop L [] seen unique = unique"
| "distinct_loop L (r # rs) seen unique =
     (let key = json_dumps_sorted L r
      in if key \<notin> set seen then distinct_loop L rs (key # seen) (unique @ [r])
         else distinct_loop L rs seen unique)"

definition apply_distinct :: "py_libs \<Rightarrow> JsonDict list \<Rightarrow> QueryBuilder \<Rightarrow> JsonDict list" where
  "apply_distinct L results b =
     (if distinct_flag b then distinct_loop L results [] [] else results)"

subsection \<open>\<^verbatim>\<open>query_linq\<close>\<close>

text \<open>\<^verbatim>\<open>query_linq\<close> returns a list of records or, for a count-only query, a number.\<close>

datatype linq_result = Rows "JsonDict list" | Count nat

definition query_linq ::
  "py_libs \<Rightarrow> 'b raw_ops \<Rightarrow> QueryBuilder \<Rightarrow> 'b kv_state \<Rightarrow> (error + linq_result) \<times> 'b kv_state" where
  "query_linq L ops b st =
     (case query_raw ops [] None (provider st) of
        (Inl e, p') \<Rightarrow> (Inl e, st\<lparr>provider := p'\<rparr>)
      | (Inr results, p') \<Rightarrow>
          (case retrieve_all L results (object_store st) of
             (Inl e, os') \<Rightarrow> (Inl e, \<lparr>provider = p', object_store = os'\<rparr>)
           | (Inr results1, os') \<Rightarrow>
               (let st' = \<lparr>provider = p', object_store = os'\<rparr>
                in case apply_filters results1 b of
                     Inl e \<Rightarrow> (Inl e, st')
                   | Inr results2 \<Rightarrow>
                       if count_only b then (Inr (Count (length results2)), st')
                       else
                         (case apply_ordering results2 b of
                            Inl e \<Rightarrow> (Inl e, st')
                          | Inr results3 \<Rightarrow>
                              (let results4 = apply_pagination results3 b;
                                   results5 = apply_projection results4 b;
                                   results6 = apply_distinct L results5 b
                               in (Inr (Rows results6), st'))))))"

text \<open>
  An element \<open>a\<close> may stand before \<open>b\<close> in a sorted result: ascending, when \<open>b < a\<close> does
  not hold; descending, when \<open>a < b\<close> does not hold.
\<close>

definition key_before :: "bool \<Rightarrow> pyval \<Rightarrow> pyval \<Rightarrow> bool" where
  "key_before descending a b =
     (if descending then py_lt a b \<noteq> Some True else py_lt b a \<noteq> Some True)"

text \<open>Two records for the examples of ordering.\<close>

definition rec_a1_b2 :: JsonDict where
  "rec_a1_b2 = [(''a'', PInt 1), (''b'', PInt 2)]"

definition rec_a2_b1 :: JsonDict where
  "rec_a2_b1 = [(''a'', PInt 2), (''b'', PInt 1)]"

subsection \<open>Resolved records\<close>

text \<open>
  What it means that \<open>h\<close> is the full record of the raw record \<open>r\<close> in an object store:
  a raw record without a truthy \<^verbatim>\<open>_overflow\<close> is its own full record; for a stub, \<open>h\<close> is
  what the blob under the stub's \<^verbatim>\<open>_blob_key\<close> parses to, and the blob's digest is the
  stub's \<^verbatim>\<open>_checksum\<close>.
\<close>

definition resolves :: "py_libs \<Rightarrow> object_storage \<Rightarrow> JsonDict \<Rightarrow> JsonDict \<Rightarrow> bool" where
  "resolves L os r h =
     (if py_truthy (dict_get r ''_overflow'') then
        (case map_of r ''_blob_key'' of
           Some (PStr key) \<Rightarrow>
             available os \<and>
             (case blobs os key of
                Some blob \<Rightarrow>
                  json_loads L blob = Some h
                  \<and> py_eq (PStr (md5_hexdigest L blob)) (dict_get r ''_checksum'')
              | None \<Rightarrow> False)
         | _ \<Rightarrow> False)
      else h = r)"

subsection \<open>The stages in the words of the specification\<close>

text \<open>
  The specification describes the stages of the in-memory pipeline as: filters applied
  by a per-record predicate scan; pagination by \<^verbatim>\<open>slice(skip, skip + take)\<close>; projection
  by reconstruction from the field allow-list; distinct by dedup on the canonical
  serialisation, preserving first-seen order. The definitions below follow these words
  and are compared with the stages of the source in the theorems.
\<close>

text \<open>A record passes when no filter rejects it.\<close>

definition spec_record_matches :: "QueryFilter list \<Rightarrow> JsonDict \<Rightarrow> bool" where
  "spec_record_matches fs item = list_all (\<lambda>f. filter_rejects f item = Inr False) fs"

text \<open>\<^verbatim>\<open>slice(lo, hi)\<close>: the elements at the positions from \<open>lo\<close> up to, not including, \<open>hi\<close>.\<close>

definition spec_slice :: "nat \<Rightarrow> nat \<Rightarrow> 'a list \<Rightarrow> 'a list" where
  "spec_slice lo hi xs = map (\<lambda>i. xs ! i) [lo ..< min hi (length xs)]"

text \<open>The entries of a record whose field is on the allow-list.\<close>

definition spec_project :: "string list \<Rightarrow> JsonDict \<Rightarrow> JsonDict" where
  "spec_project allowed item = filter (\<lambda>entry. fst entry \<in> set allowed) item"

text \<open>
  Dedup that keeps the first element of every key: the head stays, and the elements
  after it that have its key go.
\<close>

function spec_first_seen :: "('a \<Rightarrow> 'k) \<Rightarrow> 'a list \<Rightarrow> 'a list" where
  "spec_first_seen key [] = []"
| "spec_first_seen key (x # xs) = x # spec_first_seen key (filter (\<lambda>y. key y \<noteq> key x) xs)"
  by pat_completeness auto
termination
  by (relation "measure (\<lambda>(key, xs). length xs)") (auto simp: less_Suc_eq_le)

text \<open>
  Inputs for the example of the whole pipeline: six records, of which the fourth is
  stored as a stub with its bytes in the object store, and a query with two filters, a
  descending order, a skip, a take, a projection and the distinct flag.
\<close>

definition tagged :: "int \<Rightarrow> string \<Rightarrow> JsonDict" where
  "tagged n t = [(''id'', PInt n), (''tag'', PStr t)]"

definition tagged_stub :: JsonDict where
  "tagged_stub =
     overflow_stub ''overflow/r4.json'' (length (example_dumps (tagged 4 ''x'')))
       (rev (example_dumps (tagged 4 ''x'')))"

definition tagged_state :: "((string \<times> string) \<times> JsonDict) list kv_state" where
  "tagged_state =
     \<lparr>provider =
        [((''1'', ''1''), tagged 1 ''w''), ((''2'', ''2''), tagged 2 ''y''),
         ((''3'', ''3''), tagged 3 ''y''), ((''4'', ''4''), tagged_stub),
         ((''5'', ''5''), tagged 5 ''z''), ((''6'', ''6''), tagged 6 ''q'')],
      object_store =
        \<lparr>blobs = [''overflow/r4.json'' \<mapsto> example_dumps (tagged 4 ''x'')],
         available = True, fetched = []\<rparr>\<rparr>"

definition tagged_query :: QueryBuilder where
  "tagged_query =
     \<lparr>filters = [\<lparr>field = ''id'', operator = GT, operand = Scalar (PInt 0)\<rparr>,
                 \<lparr>field = ''tag'', operator = NE, operand = Scalar (PStr ''z'')\<rparr>],
      order_by_fields = [(''id'', True)], skip_count = 1, take_count = Some 3,
      select_fields = Some [''tag''], group_by_fields = None, distinct_flag = True,
      count_only = False\<rparr>"

section \<open>Paged reads (\<^verbatim>\<open>PostgreSQLAdapter.select_page\<close>, \<^verbatim>\<open>NoSQLKVAdapter.query_page\<close>)\<close>

subsection \<open>Python's \<^verbatim>\<open>int\<close> on strings\<close>

text \<open>
  \<^verbatim>\<open>int(s)\<close> strips whitespace from both ends, reads an optional sign and then decimal
  digits, between which single underscores may stand; anything else raises
  \<^verbatim>\<open>ValueError\<close>. Of the first 256 code points, the whitespace that \<^verbatim>\<open>int\<close> strips is
  the tab, line feed, vertical tab, form feed, carriage return and space, and the
  next-line and no-break-space characters (133 and 160); the separators 28 to 31, which
  \<^verbatim>\<open>str.strip\<close> would remove, make \<^verbatim>\<open>int\<close> raise. The interpreter's configurable limit
  on the number of digits of a conversion between \<^verbatim>\<open>int\<close> and \<^verbatim>\<open>str\<close> (4300 by default)
  is taken as not reached.
\<close>

definition is_py_space :: "char \<Rightarrow> bool" where
  "is_py_space c =
     (let n = (of_char c :: nat)
      in (9 \<le> n \<and> n \<le> 13) \<or> n = 32 \<or> n = 133 \<or> n = 160)"

definition is_digit :: "char \<Rightarrow> bool" where
  "is_digit c = (48 \<le> (of_char c :: nat) \<and> (of_char c :: nat) \<le> 57)"

definition digit_val :: "char \<Rightarrow> nat" where
  "digit_val c = of_char c - 48"

definition strip :: "string \<Rightarrow> string" where
  "strip s = rev (dropWhile is_py_space (rev (dropWhile is_py_space s)))"

text \<open>
  Digits with single underscores between them; \<open>prev\<close> says that the character before
  was a digit.
\<close>

fun digits_ok :: "bool \<Rightarrow> string \<Rightarrow> bool" where
  "digits_ok prev [] = prev"
| "digits_ok prev (c # cs) =
     (if is_digit c then digits_ok True cs
      else if c = CHR ''_'' \<and> prev then digits_ok False cs
      else False)"

definition digits_value :: "string \<Rightarrow> nat" where
  "digits_value body = foldl (\<lambda>a c. 10 * a + digit_val c) 0 (filter is_digit body)"

definition py_int :: "string \<Rightarrow> error + int" where
  "py_int s =
     (let t = strip s;
          negative = (case t of c # r \<Rightarrow> c = CHR ''-'' | [] \<Rightarrow> False);
          body = (case t of c # r \<Rightarrow> if c = CHR ''-'' \<or> c = CHR ''+'' then r else t | [] \<Rightarrow> [])
      in if digits_ok False body
         then Inr (if negative then - int (digits_value body) else int (digits_value body))
         else Inl ValueError)"

subsection \<open>\<^verbatim>\<open>PostgreSQLAdapter.select\<close> and \<^verbatim>\<open>select_page\<close>\<close>

text \<open>
  The database is a collaborator: \<open>db table query\<close> is the list of the rows of \<open>table\<close>
  that satisfy the WHERE clause built from \<open>query\<close>, in the order in which the database
  returns them; that order is taken to be the same for every statement. \<^verbatim>\<open>select\<close>
  validates the table name before its \<^verbatim>\<open>try\<close> and the keys of the query inside it
  (where every exception becomes \<^verbatim>\<open>DatabaseError\<close>), adds \<^verbatim>\<open>LIMIT\<close> for a truthy
  \<^verbatim>\<open>limit\<close> and \<^verbatim>\<open>OFFSET\<close> for a truthy \<^verbatim>\<open>offset\<close>; PostgreSQL rejects a \<^verbatim>\<open>LIMIT\<close> or
  \<^verbatim>\<open>OFFSET\<close> that is negative or beyond its 64-bit integers. Every step is
  deterministic, so the retries of the decorator end as the first attempt does.
\<close>

definition pg_bigint_max :: int where
  "pg_bigint_max = 9223372036854775807"

definition pg_count_ok :: "int option \<Rightarrow> bool" where
  "pg_count_ok n = (case n of Some k \<Rightarrow> 0 \<le> k \<and> k \<le> pg_bigint_max | None \<Rightarrow> True)"

type_synonym database = "string \<Rightarrow> Lookup \<Rightarrow> JsonDict list"

definition truthy_int :: "int option \<Rightarrow> int option" where
  "truthy_int n = (case n of None \<Rightarrow> None | Some k \<Rightarrow> if k \<noteq> 0 then Some k else None)"

definition pg_select ::
  "database \<Rightarrow> string \<Rightarrow> Lookup option \<Rightarrow> int option \<Rightarrow> int option \<Rightarrow> error + JsonDict list" where
  "pg_select db table q limit offset =
     (case validate_table_name table of
        Inl e \<Rightarrow> Inl e
      | Inr t \<Rightarrow>
          (case validate_column_names (map fst (opt_list q)) of
             Inl e \<Rightarrow> Inl DatabaseError
           | Inr _ \<Rightarrow>
               (let lim = truthy_int limit;
                    off = truthy_int offset
                in if \<not> pg_count_ok lim \<or> \<not> pg_count_ok off
                   then Inl DatabaseError
                   else
                     (let rows = db t (opt_list q);
                          after_offset = (case off of Some k \<Rightarrow> drop (nat k) rows | None \<Rightarrow> rows)
                      in Inr (case lim of
                                Some l \<Rightarrow> take (nat l) after_offset
                              | None \<Rightarrow> after_offset)))))"

text \<open>\<^verbatim>\<open>offset = int(continuation_token) if continuation_token else 0\<close>\<close>

definition token_offset :: "string option \<Rightarrow> error + int" where
  "token_offset continuation_token =
     (case continuation_token of
        None \<Rightarrow> Inr 0
      | Some t \<Rightarrow> if t = [] then Inr 0 else py_int t)"

text \<open>The lines after the fetch, which both paged reads share word for word.\<close>

definition page_of :: "int \<Rightarrow> int \<Rightarrow> JsonDict list \<Rightarrow> JsonDict list \<times> string option" where
  "page_of offset page_size results =
     (let has_more = int (length results) > page_size;
          results' = (if has_more then slice_to page_size results else results);
          next_token = (if has_more then Some (str_of_int (offset + page_size)) else None)
      in (results', next_token))"

definition select_page ::
  "database \<Rightarrow> string \<Rightarrow> Lookup \<Rightarrow> int \<Rightarrow> string option
     \<Rightarrow> error + (JsonDict list \<times> string option)" where
  "select_page db table q page_size continuation_token =
     (case token_offset continuation_token of
        Inl e \<Rightarrow> Inl e
      | Inr offset \<Rightarrow>
          (case pg_select db table (Some q) (Some (page_size + 1)) (Some offset) of
             Inl e \<Rightarrow> Inl e
           | Inr results \<Rightarrow> Inr (page_of offset page_size results)))"

subsection \<open>\<^verbatim>\<open>NoSQLKVAdapter.query_page\<close>\<close>

text \<open>
  The offset is computed from the token and used for the next token only: the fetch
  \<^verbatim>\<open>self.query(model, query, limit=page_size + 1)\<close> does not receive it.
\<close>

definition query_page ::
  "py_libs \<Rightarrow> 'b raw_ops \<Rightarrow> Lookup \<Rightarrow> int \<Rightarrow> string option \<Rightarrow> 'b kv_state
     \<Rightarrow> (error + (JsonDict list \<times> string option)) \<times> 'b kv_state" where
  "query_page L ops q page_size continuation_token st =
     (case token_offset continuation_token of
        Inl e \<Rightarrow> (Inl e, st)
      | Inr offset \<Rightarrow>
          (case query L ops (Some q) (Some (page_size + 1)) st of
             (Inl e, st') \<Rightarrow> (Inl e, st')
           | (Inr results, st') \<Rightarrow> (Inr (page_of offset page_size results), st')))"

section \<open>The orchestrator (\<^verbatim>\<open>databaseFactory.py\<close>)\<close>

subsection \<open>Context, configuration and collaborators\<close>

datatype IsolationLevel = SHARED_SCHEMA | SEPARATE_SCHEMA | SEPARATE_DATABASE

record TenantConfig =
  tenant_id :: string
  isolation_level :: IsolationLevel

text \<open>
  The ambient request context: \<^verbatim>\<open>TenantContext.current_tenant\<close> and, of
  \<^verbatim>\<open>AuditContext\<close>, the tenant and actor identifiers.
\<close>

record request_context =
  current_tenant :: "TenantConfig option"
  audit_tenant_id :: "string option"
  audit_actor_id :: "string option"

text \<open>
  Row-level security as \<^verbatim>\<open>enforce_read\<close> and \<^verbatim>\<open>enforce_write\<close> use it for one model:
  the default read filters and write constraints registered for the model, and the
  verdict of its write policies on a record (\<^verbatim>\<open>check_access(..., operation="write")\<close>).
  The orchestrator passes no context, so the context of \<^verbatim>\<open>_get_context()\<close> has no
  tenant and injects nothing.
\<close>

record rls_config =
  read_filters :: "Lookup option"
  write_filters :: "JsonDict option"
  write_allowed :: "JsonDict \<Rightarrow> bool"

text \<open>
  Field encryption: the libraries and key of decryption, and \<^verbatim>\<open>_encrypt_value\<close>, which
  draws a random nonce and is a parameter.
\<close>

record encryption_config =
  libs :: crypto_libs
  encryption_key :: string
  encrypt_value :: "pyval \<Rightarrow> error + pyval"

text \<open>
  The attributes of a \<^verbatim>\<open>DatabaseFactory\<close> that the modelled methods read. The external
  cache is not configured (the constructor's default), monitoring is off, and the
  audit trail, which is written after the operation and never changes its result, is
  not modelled. \<^verbatim>\<open>_run\<close> repeats a failing operation; the collaborators below are
  functions, so a repetition gives the same result. \<^verbatim>\<open>DataMasking\<close> is always present;
  \<open>masking_config\<close> is the configuration registered with it for the model at hand
  (field to mask type), empty when none is registered.
\<close>

record factory =
  soft_delete :: bool
  tenant_enforcer :: bool
  rls :: "rls_config option"
  encryption :: "encryption_config option"
  masking_config :: "(string \<times> string) list"

text \<open>
  The model's metadata (\<^verbatim>\<open>ModelMeta\<close> of \<^verbatim>\<open>types.py\<close>), of which the modelled methods
  read \<^verbatim>\<open>storage\<close> and \<^verbatim>\<open>table\<close>. The model is taken to be registered with valid
  metadata (\<^verbatim>\<open>ModelRegistry\<close> and \<^verbatim>\<open>ModelValidator.validate_and_raise\<close> do not raise).
\<close>

record ModelMeta =
  storage :: string
  table :: "string option"

text \<open>
  \<^verbatim>\<open>getattr(meta, "encrypted_fields", [])\<close>: \<^verbatim>\<open>ModelMeta\<close> is a frozen dataclass
  without such an attribute, and \<^verbatim>\<open>ModelRegistry.get\<close> builds it from a fixed set of
  keys, so every call gets the default.
\<close>

definition encrypted_fields :: "ModelMeta \<Rightarrow> string list" where
  "encrypted_fields meta = []"

text \<open>The reference of an update or delete: an identifier or a lookup dictionary.\<close>

datatype entity_ref = ById pyval | ByLookup Lookup

text \<open>A call the orchestrator makes on a storage adapter to change data.\<close>

datatype write_request =
    SqlInsert string JsonDict
  | NoSqlPut JsonDict
  | SqlUpdate string entity_ref JsonDict
  | NoSqlPatch entity_ref JsonDict "string option" bool
  | SqlUpsert string JsonDict
  | NoSqlUpsert JsonDict bool
  | SqlDelete string entity_ref
  | NoSqlDelete entity_ref "string option"

text \<open>
  The two storage adapters as the orchestrator calls them. Reads are functions of
  their arguments; \<open>dispatch_write\<close> is the result of a dispatched write.
\<close>

record backends =
  sql_select :: "string \<Rightarrow> Lookup \<Rightarrow> int option \<Rightarrow> int option \<Rightarrow> error + JsonDict list"
  sql_select_page :: "string \<Rightarrow> Lookup \<Rightarrow> int \<Rightarrow> string option
                        \<Rightarrow> error + (JsonDict list \<times> string option)"
  nosql_query :: "Lookup \<Rightarrow> int option \<Rightarrow> error + JsonDict list"
  nosql_query_page :: "Lookup \<Rightarrow> int \<Rightarrow> string option
                         \<Rightarrow> error + (JsonDict list \<times> string option)"
  dispatch_write :: "write_request \<Rightarrow> error + JsonDict"

subsection \<open>Dictionary updates\<close>

text \<open>\<^verbatim>\<open>d.setdefault(k, v)\<close> and \<^verbatim>\<open>d[k] = v\<close> on a copy of the dictionary.\<close>

definition dict_setdefault :: "'k \<Rightarrow> 'v \<Rightarrow> ('k \<times> 'v) list \<Rightarrow> ('k \<times> 'v) list" where
  "dict_setdefault k v d = (if map_of d k = None then d @ [(k, v)] else d)"

fun dict_set :: "'k \<Rightarrow> 'v \<Rightarrow> ('k \<times> 'v) list \<Rightarrow> ('k \<times> 'v) list" where
  "dict_set k v [] = [(k, v)]"
| "dict_set k v ((k', v') # d) = (if k' = k then (k, v) # d else (k', v') # dict_set k v d)"

text \<open>Adding the entries of \<open>extra\<close> whose keys are not in the dictionary yet.\<close>

fun add_missing :: "('k \<times> 'v) list \<Rightarrow> ('k \<times> 'v) list \<Rightarrow> ('k \<times> 'v) list" where
  "add_missing [] d = d"
| "add_missing ((k, v) # extra) d = add_missing extra (dict_setdefault k v d)"

subsection \<open>Tenancy and row-level security\<close>

text \<open>\<^verbatim>\<open>_current_tenant_id\<close>: the tenant context first, the audit context otherwise.\<close>

definition current_tenant_id :: "request_context \<Rightarrow> string option" where
  "current_tenant_id ctx =
     (case current_tenant ctx of
        Some t \<Rightarrow> if tenant_id t \<noteq> [] then Some (tenant_id t) else audit_tenant_id ctx
      | None \<Rightarrow> audit_tenant_id ctx)"

text \<open>A tenant identifier that is set: not \<^verbatim>\<open>None\<close> and not the empty string.\<close>

definition truthy_str :: "string option \<Rightarrow> string option" where
  "truthy_str s = (case s of None \<Rightarrow> None | Some t \<Rightarrow> if t \<noteq> [] then Some t else None)"

text \<open>\<^verbatim>\<open>TenantIsolationEnforcer.enforce_read\<close> and \<^verbatim>\<open>enforce_write\<close>.\<close>

definition tenant_enforce_read :: "request_context \<Rightarrow> Lookup \<Rightarrow> error + Lookup" where
  "tenant_enforce_read ctx q =
     (case current_tenant ctx of
        None \<Rightarrow> Inl ValueError
      | Some t \<Rightarrow>
          if isolation_level t = SHARED_SCHEMA
          then Inr (dict_set ''tenant_id'' (Scalar (PStr (tenant_id t))) q)
          else Inr q)"

definition tenant_enforce_write :: "request_context \<Rightarrow> JsonDict \<Rightarrow> error + JsonDict" where
  "tenant_enforce_write ctx data =
     (case current_tenant ctx of
        None \<Rightarrow> Inl ValueError
      | Some t \<Rightarrow>
          if isolation_level t = SHARED_SCHEMA
          then Inr (dict_set ''tenant_id'' (PStr (tenant_id t)) data)
          else Inr data)"

text \<open>\<^verbatim>\<open>RowLevelSecurity.enforce_read\<close> and \<^verbatim>\<open>enforce_write\<close>.\<close>

definition rls_enforce_read :: "rls_config \<Rightarrow> Lookup \<Rightarrow> Lookup" where
  "rls_enforce_read r q = add_missing (opt_list (read_filters r)) q"

definition rls_enforce_write :: "rls_config \<Rightarrow> JsonDict \<Rightarrow> error + JsonDict" where
  "rls_enforce_write r data =
     (if \<not> write_allowed r data then Inl PermissionError
      else Inr (add_missing (opt_list (write_filters r)) data))"


subsection \<open>Data masking (\<^verbatim>\<open>security.py\<close>)\<close>

text \<open>
  \<^verbatim>\<open>str.isdigit\<close> on the first 256 code points: the ASCII digits and the superscript
  digits two, three and one.
\<close>

definition is_py_digit :: "char \<Rightarrow> bool" where
  "is_py_digit c =
     (let n = (of_char c :: nat)
      in (48 \<le> n \<and> n \<le> 57) \<or> n = 178 \<or> n = 179 \<or> n = 185)"

definition stars :: "nat \<Rightarrow> string" where
  "stars n = replicate n CHR ''*''"

text \<open>\<^verbatim>\<open>s[-4:]\<close>\<close>

definition last_four :: "string \<Rightarrow> string" where
  "last_four s = drop (length s - 4) s"

definition mask_email :: "string \<Rightarrow> string" where
  "mask_email email =
     (if CHR ''@'' \<notin> set email then email
      else
        (let local_part = takeWhile (\<lambda>c. c \<noteq> CHR ''@'') email;
             domain = tl (dropWhile (\<lambda>c. c \<noteq> CHR ''@'') email);
             masked_local =
               (if length local_part \<le> 2 then stars (length local_part)
                else [hd local_part] @ stars (length local_part - 2) @ [last local_part])
         in masked_local @ ''@'' @ domain))"

definition mask_phone :: "string \<Rightarrow> string" where
  "mask_phone phone =
     (let digits = filter is_py_digit phone
      in if length digits \<le> 4 then stars (length digits)
         else stars (length digits - 4) @ last_four digits)"

definition mask_ssn :: "string \<Rightarrow> string" where
  "mask_ssn ssn =
     (let digits = filter is_py_digit ssn
      in if length digits \<ge> 4 then ''***-**-'' @ last_four digits
         else stars (length digits))"

definition mask_credit_card :: "string \<Rightarrow> string" where
  "mask_credit_card cc =
     (let digits = filter is_py_digit
                     (filter (\<lambda>c. c \<noteq> CHR '' '') (filter (\<lambda>c. c \<noteq> CHR ''-'') cc))
      in if length digits \<le> 4 then stars (length digits)
         else ''**** **** **** '' @ last_four digits)"

datatype masker = MaskEmail | MaskPhone | MaskSsn | MaskCreditCard | MaskRedact

fun run_masker :: "masker \<Rightarrow> string \<Rightarrow> string" where
  "run_masker MaskEmail s = mask_email s"
| "run_masker MaskPhone s = mask_phone s"
| "run_masker MaskSsn s = mask_ssn s"
| "run_masker MaskCreditCard s = mask_credit_card s"
| "run_masker MaskRedact s = ''[REDACTED]''"

text \<open>\<^verbatim>\<open>_get_masker\<close>: the masker of a configured mask type.\<close>

definition get_masker :: "string \<Rightarrow> masker option" where
  "get_masker mask_type =
     (if mask_type = ''email'' then Some MaskEmail
      else if mask_type = ''phone'' then Some MaskPhone
      else if mask_type = ''ssn'' then Some MaskSsn
      else if mask_type = ''credit_card'' then Some MaskCreditCard
      else if mask_type = ''redact'' then Some MaskRedact
      else None)"

text \<open>
  \<^verbatim>\<open>_infer_mask_type\<close>: the global rules in their order. The patterns \<^verbatim>\<open>ssn_*\<close> and
  \<^verbatim>\<open>card_*\<close> match a field that starts with the pattern without its last two
  characters, that is with \<^verbatim>\<open>ssn\<close> or \<^verbatim>\<open>card\<close>.
\<close>

definition infer_mask_type :: "string \<Rightarrow> masker option" where
  "infer_mask_type fld =
     (if fld = ''email'' then Some MaskEmail
      else if fld = ''phone'' then Some MaskPhone
      else if fld = ''ssn'' then Some MaskSsn
      else if fld = ''credit_card'' then Some MaskCreditCard
      else if fld = ''password'' then Some MaskRedact
      else if prefix ''ssn'' fld then Some MaskSsn
      else if prefix ''card'' fld then Some MaskCreditCard
      else None)"

text \<open>One turn of the loop of \<^verbatim>\<open>mask\<close>: the value that the field holds afterwards.\<close>

definition mask_field :: "(string \<times> string) list \<Rightarrow> string \<Rightarrow> pyval \<Rightarrow> pyval" where
  "mask_field config fld v =
     (if v = PNone then v
      else
        (case (case map_of config fld of
                 Some mask_type \<Rightarrow> if mask_type \<noteq> [] then get_masker mask_type else None
               | None \<Rightarrow> None) of
           Some m \<Rightarrow> PStr (run_masker m (py_str v))
         | None \<Rightarrow>
             (case infer_mask_type fld of
                Some m \<Rightarrow> PStr (run_masker m (py_str v))
              | None \<Rightarrow> v)))"

text \<open>\<^verbatim>\<open>_apply_context_masking\<close>\<close>

definition restrict_field :: "string \<Rightarrow> JsonDict \<Rightarrow> JsonDict" where
  "restrict_field k data =
     (if map_of data k \<noteq> None then dict_set k (PStr ''[RESTRICTED]'') data else data)"

definition apply_context_masking :: "JsonDict \<Rightarrow> string \<Rightarrow> JsonDict" where
  "apply_context_masking data actor_id =
     (case map_of data ''owner_id'' of
        Some owner \<Rightarrow>
          if \<not> py_eq owner (PStr actor_id)
          then restrict_field ''health_info'' (restrict_field ''salary'' data)
          else data
      | None \<Rightarrow> data)"

text \<open>
  \<^verbatim>\<open>DataMasking.mask(r, model, actor_id, tenant_id)\<close> as the orchestrator calls it, with
  the current actor and tenant identifiers.
\<close>

definition mask_record ::
  "(string \<times> string) list \<Rightarrow> request_context \<Rightarrow> JsonDict \<Rightarrow> JsonDict" where
  "mask_record config ctx data =
     (let result = map (\<lambda>(k, v). (k, mask_field config k v)) data
      in case truthy_str (audit_actor_id ctx) of
           Some actor \<Rightarrow>
             (case truthy_str (current_tenant_id ctx) of
                Some tenant \<Rightarrow> apply_context_masking result actor
              | None \<Rightarrow> result)
         | None \<Rightarrow> result)"

subsection \<open>Reads\<close>

definition apply_soft_delete_filter :: "factory \<Rightarrow> Lookup option \<Rightarrow> Lookup" where
  "apply_soft_delete_filter F q =
     (if \<not> soft_delete F then opt_list q
      else dict_setdefault ''deleted_at'' (Scalar PNone) (opt_list q))"

text \<open>
  The filter that \<^verbatim>\<open>read\<close> and \<^verbatim>\<open>read_page\<close> hand to storage: the soft-delete filter
  of the caller's query, or of \<^verbatim>\<open>None\<close> when \<^verbatim>\<open>include_deleted\<close> is set; then the tenant
  enforcer, row-level security and the tenant filter.
\<close>

definition read_query ::
  "factory \<Rightarrow> request_context \<Rightarrow> Lookup option \<Rightarrow> bool \<Rightarrow> error + Lookup" where
  "read_query F ctx q include_deleted =
     (let q0 = apply_soft_delete_filter F (if \<not> include_deleted then q else None)
      in case (if tenant_enforcer F then tenant_enforce_read ctx q0 else Inr q0) of
           Inl e \<Rightarrow> Inl e
         | Inr q1 \<Rightarrow>
             (let q2 = (case rls F of Some r \<Rightarrow> rls_enforce_read r q1 | None \<Rightarrow> q1)
              in case truthy_str (current_tenant_id ctx) of
                   Some t \<Rightarrow> Inr (dict_setdefault ''tenant_id'' (Scalar (PStr t)) q2)
                 | None \<Rightarrow> Inr q2))"

definition uses_sql :: "ModelMeta \<Rightarrow> bool" where
  "uses_sql meta =
     (storage meta = ''sql'' \<and> (case table meta of Some t \<Rightarrow> t \<noteq> [] | None \<Rightarrow> False))"

definition table_name :: "ModelMeta \<Rightarrow> string" where
  "table_name meta = (case table meta of Some t \<Rightarrow> t | None \<Rightarrow> [])"

text \<open>\<^verbatim>\<open>FieldEncryption.decrypt_fields\<close>: the loop over the declared fields.\<close>

fun decrypt_fields :: "encryption_config \<Rightarrow> string list \<Rightarrow> JsonDict \<Rightarrow> error + JsonDict" where
  "decrypt_fields E [] result = Inr result"
| "decrypt_fields E (f # fs) result =
     (case map_of result f of
        None \<Rightarrow> decrypt_fields E fs result
      | Some v \<Rightarrow>
          if v = PNone then decrypt_fields E fs result
          else
            (case decrypt_value (libs E) (encryption_key E) v of
               Inl e \<Rightarrow> Inl e
             | Inr v' \<Rightarrow> decrypt_fields E fs (dict_set f v' result)))"

text \<open>Decryption of one row when encryption is on and the model declares fields.\<close>

definition decrypt_row :: "factory \<Rightarrow> ModelMeta \<Rightarrow> JsonDict \<Rightarrow> error + JsonDict" where
  "decrypt_row F meta r =
     (case encryption F of
        Some E \<Rightarrow> if encrypted_fields meta \<noteq> [] then decrypt_fields E (encrypted_fields meta) r
                  else Inr r
      | None \<Rightarrow> Inr r)"

text \<open>The rows of a read: each decrypted, in order, then each masked.\<close>

fun decrypt_rows :: "factory \<Rightarrow> ModelMeta \<Rightarrow> JsonDict list \<Rightarrow> error + JsonDict list" where
  "decrypt_rows F meta [] = Inr []"
| "decrypt_rows F meta (r # rs) =
     (case decrypt_row F meta r of
        Inl e \<Rightarrow> Inl e
      | Inr r' \<Rightarrow>
          (case decrypt_rows F meta rs of
             Inl e \<Rightarrow> Inl e
           | Inr rs' \<Rightarrow> Inr (r' # rs')))"

definition post_rows ::
  "factory \<Rightarrow> request_context \<Rightarrow> ModelMeta \<Rightarrow> JsonDict list \<Rightarrow> error + JsonDict list" where
  "post_rows F ctx meta raw_rows =
     (case decrypt_rows F meta raw_rows of
        Inl e \<Rightarrow> Inl e
      | Inr rows \<Rightarrow> Inr (map (mask_record (masking_config F) ctx) rows))"

definition read ::
  "factory \<Rightarrow> backends \<Rightarrow> request_context \<Rightarrow> ModelMeta \<Rightarrow> Lookup option \<Rightarrow> int option
     \<Rightarrow> int option \<Rightarrow> bool \<Rightarrow> error + JsonDict list" where
  "read F B ctx meta q limit offset include_deleted =
     (case read_query F ctx q include_deleted of
        Inl e \<Rightarrow> Inl e
      | Inr q' \<Rightarrow>
          (case (if uses_sql meta then sql_select B (table_name meta) q' limit offset
                 else nosql_query B q' limit) of
             Inl e \<Rightarrow> Inl e
           | Inr raw_rows \<Rightarrow> post_rows F ctx meta raw_rows))"

definition read_one ::
  "factory \<Rightarrow> backends \<Rightarrow> request_context \<Rightarrow> ModelMeta \<Rightarrow> Lookup \<Rightarrow> bool
     \<Rightarrow> error + JsonDict option" where
  "read_one F B ctx meta q include_deleted =
     (case read F B ctx meta (Some q) (Some 1) None include_deleted of
        Inl e \<Rightarrow> Inl e
      | Inr rows \<Rightarrow> Inr (case rows of [] \<Rightarrow> None | r # _ \<Rightarrow> Some r))"

definition read_page ::
  "factory \<Rightarrow> backends \<Rightarrow> request_context \<Rightarrow> ModelMeta \<Rightarrow> Lookup \<Rightarrow> int \<Rightarrow> string option
     \<Rightarrow> bool \<Rightarrow> error + (JsonDict list \<times> string option)" where
  "read_page F B ctx meta q page_size continuation_token include_deleted =
     (case read_query F ctx (Some q) include_deleted of
        Inl e \<Rightarrow> Inl e
      | Inr q' \<Rightarrow>
          (case (if uses_sql meta
                 then sql_select_page B (table_name meta) q' page_size continuation_token
                 else nosql_query_page B q' page_size continuation_token) of
             Inl e \<Rightarrow> Inl e
           | Inr (raw_rows, next_token) \<Rightarrow>
               (case post_rows F ctx meta raw_rows of
                  Inl e \<Rightarrow> Inl e
                | Inr rows \<Rightarrow> Inr (rows, next_token))))"

text \<open>\<^verbatim>\<open>_fetch_before\<close>: the row before an update or delete.\<close>

definition fetch_before ::
  "factory \<Rightarrow> backends \<Rightarrow> request_context \<Rightarrow> ModelMeta \<Rightarrow> entity_ref
     \<Rightarrow> error + JsonDict option" where
  "fetch_before F B ctx meta entity_id =
     (let lookup = (case entity_id of
                      ById v \<Rightarrow> [(''id'', Scalar v)]
                    | ByLookup l \<Rightarrow> l)
      in read_one F B ctx meta lookup True)"

text \<open>
  The adapters of this repository as the orchestrator's collaborators: the PostgreSQL
  adapter over a database, and the key-value engine over a provider in a state
  (whose reads return their result and leave what the provider holds as it is).
\<close>

definition repo_backends ::
  "database \<Rightarrow> py_libs \<Rightarrow> 'b raw_ops \<Rightarrow> 'b kv_state \<Rightarrow> (write_request \<Rightarrow> error + JsonDict)
     \<Rightarrow> backends" where
  "repo_backends db L ops st w =
     \<lparr>sql_select = (\<lambda>t q limit offset. pg_select db t (Some q) limit offset),
      sql_select_page = select_page db,
      nosql_query = (\<lambda>q limit. fst (query L ops (Some q) limit st)),
      nosql_query_page = (\<lambda>q page_size token. fst (query_page L ops q page_size token st)),
      dispatch_write = w\<rparr>"

subsection \<open>Inputs for the examples of the orchestrator\<close>

text \<open>
  A factory with every optional feature off, a request without tenant or actor, a
  model stored in the relational table \<open>items\<close>, a database of three rows that
  returns the rows that satisfy every condition of the query, and the repository's
  adapters over that database.
\<close>

definition plain_factory :: factory where
  "plain_factory =
     \<lparr>soft_delete = False, tenant_enforcer = False, rls = None, encryption = None,
      masking_config = []\<rparr>"

definition no_context :: request_context where
  "no_context = \<lparr>current_tenant = None, audit_tenant_id = None, audit_actor_id = None\<rparr>"

definition sql_meta :: ModelMeta where
  "sql_meta = \<lparr>storage = ''sql'', table = Some ''items''\<rparr>"

definition three_rows :: database where
  "three_rows =
     (\<lambda>t q. filter (\<lambda>r. list_all (sql_condition r) q)
              [[(''id'', PInt 1)], [(''id'', PInt 2)], [(''id'', PInt 3)]])"

definition example_backends :: backends where
  "example_backends =
     repo_backends three_rows (example_libs []) memory_ops empty_kv_state (\<lambda>w. Inr [])"

text \<open>
  A model kept in the key-value store, a state whose provider holds the three rows of
  the database above, and the repository's adapters over that state.
\<close>

definition kv_meta :: ModelMeta where
  "kv_meta = \<lparr>storage = ''nosql'', table = None\<rparr>"

definition three_rows_state :: "((string \<times> string) \<times> JsonDict) list kv_state" where
  "three_rows_state =
     \<lparr>provider = [((''1'', ''1''), [(''id'', PInt 1)]), ((''2'', ''2''), [(''id'', PInt 2)]),
                  ((''3'', ''3''), [(''id'', PInt 3)])],
      object_store = empty_store\<rparr>"

definition kv_backends :: backends where
  "kv_backends =
     repo_backends three_rows (example_libs []) memory_ops three_rows_state (\<lambda>w. Inr [])"

text \<open>A factory with soft delete on, and a request whose audit context names a tenant.\<close>

definition soft_delete_factory :: factory where
  "soft_delete_factory = plain_factory\<lparr>soft_delete := True\<rparr>"

definition tenant_context :: request_context where
  "tenant_context =
     \<lparr>current_tenant = None, audit_tenant_id = Some ''t1'', audit_actor_id = Some ''alice''\<rparr>"

subsection \<open>Writes\<close>

text \<open>\<^verbatim>\<open>_inject_tenant\<close>: fails without a tenant identifier, otherwise \<^verbatim>\<open>setdefault\<close>.\<close>

definition inject_tenant :: "request_context \<Rightarrow> JsonDict \<Rightarrow> error + JsonDict" where
  "inject_tenant ctx data =
     (case truthy_str (current_tenant_id ctx) of
        None \<Rightarrow> Inl ValueError
      | Some t \<Rightarrow> Inr (dict_setdefault ''tenant_id'' (PStr t) data))"

text \<open>\<^verbatim>\<open>_inject_audit_fields\<close>; \<open>now\<close> is \<^verbatim>\<open>datetime.utcnow().isoformat()\<close>.\<close>

definition inject_audit_fields :: "request_context \<Rightarrow> string \<Rightarrow> JsonDict \<Rightarrow> bool \<Rightarrow> JsonDict" where
  "inject_audit_fields ctx now data is_create =
     (let actor = truthy_str (audit_actor_id ctx);
          d1 = (if is_create then
                  (let c = dict_setdefault ''created_at'' (PStr now) data
                   in case actor of
                        Some a \<Rightarrow> dict_setdefault ''created_by'' (PStr a) c
                      | None \<Rightarrow> c)
                else data);
          d2 = dict_setdefault ''updated_at'' (PStr now) d1
      in case actor of
           Some a \<Rightarrow> dict_setdefault ''updated_by'' (PStr a) d2
         | None \<Rightarrow> d2)"

text \<open>\<^verbatim>\<open>FieldEncryption.encrypt_fields\<close>: the loop over the given fields.\<close>

fun encrypt_fields :: "encryption_config \<Rightarrow> string list \<Rightarrow> JsonDict \<Rightarrow> error + JsonDict" where
  "encrypt_fields E [] result = Inr result"
| "encrypt_fields E (f # fs) result =
     (case map_of result f of
        None \<Rightarrow> encrypt_fields E fs result
      | Some v \<Rightarrow>
          if v = PNone then encrypt_fields E fs result
          else
            (case encrypt_value E v of
               Inl e \<Rightarrow> Inl e
             | Inr v' \<Rightarrow> encrypt_fields E fs (dict_set f v' result)))"

text \<open>Encryption of a record before a write, when encryption is on and the model declares fields.\<close>

definition encrypt_record :: "factory \<Rightarrow> ModelMeta \<Rightarrow> string list \<Rightarrow> JsonDict \<Rightarrow> error + JsonDict" where
  "encrypt_record F meta names data =
     (case encryption F of
        Some E \<Rightarrow> if encrypted_fields meta \<noteq> [] then encrypt_fields E names data else Inr data
      | None \<Rightarrow> Inr data)"

text \<open>The tenant enforcer and row-level security on a record to be written.\<close>

definition enforce_write_policies :: "factory \<Rightarrow> request_context \<Rightarrow> JsonDict \<Rightarrow> error + JsonDict" where
  "enforce_write_policies F ctx data =
     (case (if tenant_enforcer F then tenant_enforce_write ctx data else Inr data) of
        Inl e \<Rightarrow> Inl e
      | Inr d \<Rightarrow>
          (case rls F of
             Some r \<Rightarrow> rls_enforce_write r d
           | None \<Rightarrow> Inr d))"

text \<open>
  Each write operation up to its call on a storage adapter: the request it dispatches,
  or the exception raised before any request. The check of the model's declaration
  that \<^verbatim>\<open>create\<close> runs first is taken to pass.
\<close>

definition create_request ::
  "factory \<Rightarrow> request_context \<Rightarrow> string \<Rightarrow> ModelMeta \<Rightarrow> JsonDict \<Rightarrow> error + write_request" where
  "create_request F ctx now meta data =
     (case enforce_write_policies F ctx data of
        Inl e \<Rightarrow> Inl e
      | Inr d1 \<Rightarrow>
          (case inject_tenant ctx d1 of
             Inl e \<Rightarrow> Inl e
           | Inr d2 \<Rightarrow>
               (case encrypt_record F meta (encrypted_fields meta)
                       (inject_audit_fields ctx now d2 True) of
                  Inl e \<Rightarrow> Inl e
                | Inr d3 \<Rightarrow>
                    Inr (if uses_sql meta then SqlInsert (table_name meta) d3
                         else NoSqlPut d3))))"

definition upsert_request ::
  "factory \<Rightarrow> request_context \<Rightarrow> string \<Rightarrow> ModelMeta \<Rightarrow> JsonDict \<Rightarrow> bool
     \<Rightarrow> error + write_request" where
  "upsert_request F ctx now meta data replace =
     (case enforce_write_policies F ctx data of
        Inl e \<Rightarrow> Inl e
      | Inr d1 \<Rightarrow>
          (case inject_tenant ctx d1 of
             Inl e \<Rightarrow> Inl e
           | Inr d2 \<Rightarrow>
               (case encrypt_record F meta (encrypted_fields meta)
                       (inject_audit_fields ctx now d2 True) of
                  Inl e \<Rightarrow> Inl e
                | Inr d3 \<Rightarrow>
                    Inr (if uses_sql meta then SqlUpsert (table_name meta) d3
                         else NoSqlUpsert d3 replace))))"

text \<open>
  \<^verbatim>\<open>update\<close> does not call \<^verbatim>\<open>_inject_tenant\<close>. On the relational path, when a tenant
  identifier is set and the reference is a dictionary, the tenant is added to the
  reference.
\<close>

definition update_request ::
  "factory \<Rightarrow> backends \<Rightarrow> request_context \<Rightarrow> string \<Rightarrow> ModelMeta \<Rightarrow> entity_ref \<Rightarrow> JsonDict
     \<Rightarrow> string option \<Rightarrow> bool \<Rightarrow> error + write_request" where
  "update_request F B ctx now meta entity_id data etag replace =
     (case enforce_write_policies F ctx (inject_audit_fields ctx now data False) of
        Inl e \<Rightarrow> Inl e
      | Inr d1 \<Rightarrow>
          (case encrypt_record F meta
                  (filter (\<lambda>f. map_of d1 f \<noteq> None) (encrypted_fields meta)) d1 of
             Inl e \<Rightarrow> Inl e
           | Inr d2 \<Rightarrow>
               (case fetch_before F B ctx meta entity_id of
                  Inl e \<Rightarrow> Inl e
                | Inr before \<Rightarrow>
                    if uses_sql meta then
                      Inr (SqlUpdate (table_name meta)
                             (case truthy_str (current_tenant_id ctx) of
                                Some t \<Rightarrow>
                                  (case entity_id of
                                     ByLookup l \<Rightarrow>
                                       ByLookup (dict_setdefault ''tenant_id'' (Scalar (PStr t)) l)
                                   | ById v \<Rightarrow> ById v)
                              | None \<Rightarrow> entity_id)
                             d2)
                    else Inr (NoSqlPatch entity_id d2 etag replace))))"

text \<open>
  \<^verbatim>\<open>delete\<close>: with soft delete on and \<^verbatim>\<open>hard\<close> off it is an update with the deletion
  timestamp and actor (\<open>now\<close> is the clock read by \<^verbatim>\<open>delete\<close>, \<open>now'\<close> the one read by
  the update); otherwise it fetches the row and removes it.
\<close>

definition delete_request ::
  "factory \<Rightarrow> backends \<Rightarrow> request_context \<Rightarrow> string \<Rightarrow> string \<Rightarrow> ModelMeta \<Rightarrow> entity_ref
     \<Rightarrow> string option \<Rightarrow> bool \<Rightarrow> error + write_request" where
  "delete_request F B ctx now now' meta entity_id etag hard =
     (if soft_delete F \<and> \<not> hard then
        update_request F B ctx now' meta entity_id
          [(''deleted_at'', PStr now),
           (''deleted_by'', (case audit_actor_id ctx of Some a \<Rightarrow> PStr a | None \<Rightarrow> PNone))]
          None False
      else
        (case fetch_before F B ctx meta entity_id of
           Inl e \<Rightarrow> Inl e
         | Inr before \<Rightarrow>
             Inr (if uses_sql meta then SqlDelete (table_name meta) entity_id
                  else NoSqlDelete entity_id etag)))"

text \<open>
  The operations themselves: the request is dispatched and, for create, update and
  upsert, the adapter's result is decrypted for the caller.
\<close>

definition run_write :: "factory \<Rightarrow> backends \<Rightarrow> ModelMeta \<Rightarrow> bool \<Rightarrow> error + write_request
     \<Rightarrow> error + JsonDict" where
  "run_write F B meta decrypts request =
     (case request of
        Inl e \<Rightarrow> Inl e
      | Inr w \<Rightarrow>
          (case dispatch_write B w of
             Inl e \<Rightarrow> Inl e
           | Inr result \<Rightarrow> if decrypts then decrypt_row F meta result else Inr result))"

definition create ::
  "factory \<Rightarrow> backends \<Rightarrow> request_context \<Rightarrow> string \<Rightarrow> ModelMeta \<Rightarrow> JsonDict \<Rightarrow> error + JsonDict" where
  "create F B ctx now meta data = run_write F B meta True (create_request F ctx now meta data)"

definition upsert ::
  "factory \<Rightarrow> backends \<Rightarrow> request_context \<Rightarrow> string \<Rightarrow> ModelMeta \<Rightarrow> JsonDict \<Rightarrow> bool
     \<Rightarrow> error + JsonDict" where
  "upsert F B ctx now meta data replace =
     run_write F B meta True (upsert_request F ctx now meta data replace)"

definition update ::
  "factory \<Rightarrow> backends \<Rightarrow> request_context \<Rightarrow> string \<Rightarrow> ModelMeta \<Rightarrow> entity_ref \<Rightarrow> JsonDict
     \<Rightarrow> string option \<Rightarrow> bool \<Rightarrow> error + JsonDict" where
  "update F B ctx now meta entity_id data etag replace =
     run_write F B meta True (update_request F B ctx now meta entity_id data etag replace)"

definition delete ::
  "factory \<Rightarrow> backends \<Rightarrow> request_context \<Rightarrow> string \<Rightarrow> string \<Rightarrow> ModelMeta \<Rightarrow> entity_ref
     \<Rightarrow> string option \<Rightarrow> bool \<Rightarrow> error + JsonDict" where
  "delete F B ctx now now' meta entity_id etag hard =
     run_write F B meta (soft_delete F \<and> \<not> hard)
       (delete_request F B ctx now now' meta entity_id etag hard)"

text \<open>The record that a request writes, when it writes one.\<close>

definition written_record :: "write_request \<Rightarrow> JsonDict option" where
  "written_record w =
     (case w of
        SqlInsert t d \<Rightarrow> Some d
      | NoSqlPut d \<Rightarrow> Some d
      | SqlUpdate t e d \<Rightarrow> Some d
      | NoSqlPatch e d etag replace \<Rightarrow> Some d
      | SqlUpsert t d \<Rightarrow> Some d
      | NoSqlUpsert d replace \<Rightarrow> Some d
      | SqlDelete t e \<Rightarrow> None
      | NoSqlDelete e etag \<Rightarrow> None)"

chapter \<open>Properties\<close>

section \<open>The audit chain: \<^verbatim>\<open>verify_chain\<close>\<close>






section \<open>Field decryption on failure\<close>

text \<open>
  C9. When the payload of a marked value cannot be decrypted, \<^verbatim>\<open>_decrypt_value\<close> does
  not raise, but what it returns is the stored value without its \<^verbatim>\<open>encrypted:\<close>
  marker, which is never the stored value itself.
\<close>

theorem decrypt_failure_returns_stripped_payload:
  assumes "cryptography_installed L"
    and "prefix ''encrypted:'' s"
    and "undecryptable L k (drop 10 s)"
  shows "decrypt_value L k (PStr s) = Inr (PStr (drop 10 s))
         \<and> decrypt_value L k (PStr s) \<noteq> Inr (PStr s)"
proof -
  have res: "decrypt_value L k (PStr s) = Inr (PStr (drop 10 s))"
    using assms
    by (auto simp: decrypt_value_def undecryptable_def Let_def split: option.splits)
  obtain t where s: "s = ''encrypted:'' @ t"
    using assms(2) by (auto simp: prefix_def)
  have "length (drop 10 s) < length s"
    by (simp add: s)
  then have "drop 10 s \<noteq> s"
    by (metis less_irrefl)
  with res show ?thesis by simp
qed

theorem decrypt_failure_returns_stripped_payload_witness:
  "decrypt_value rotated_key_libs ''k'' (PStr ''encrypted:AAAA'') = Inr (PStr ''AAAA'')
   \<and> decrypt_value rotated_key_libs ''k'' (PStr ''encrypted:AAAA'')
       \<noteq> Inr (PStr ''encrypted:AAAA'')"
proof -
  have a: "cryptography_installed rotated_key_libs"
    by (simp add: rotated_key_libs_def)
  have b: "prefix ''encrypted:'' ''encrypted:AAAA''"
    by simp
  have c: "undecryptable rotated_key_libs ''k'' (drop 10 ''encrypted:AAAA'')"
    by (simp add: undecryptable_def rotated_key_libs_def)
  show ?thesis
    using decrypt_failure_returns_stripped_payload [OF a b c] by simp
qed

section \<open>Identifiers in generated SQL\<close>

lemma validate_column_names_all:
  "validate_column_names fs = Inr u \<Longrightarrow> \<forall>f \<in> set fs. validate_column_name f = Inr f"
  by (induction fs) (auto simp: validate_column_name_def split: sum.splits if_splits)

lemma order_parts_validated:
  "order_parts fs parts = Inr ps \<Longrightarrow> \<forall>(f, d) \<in> set fs. validate_column_name f = Inr f"
  by (induction fs parts rule: order_parts.induct)
     (auto simp: validate_column_name_def split: sum.splits if_splits)

lemma re_match_class_plus_iff:
  assumes "CHR 0x0A \<notin> set s"
  shows "re_match_class_plus cls s = (s \<noteq> [] \<and> list_all cls s)"
proof -
  have "dropWhile cls s \<noteq> [CHR 0x0A]"
  proof
    assume "dropWhile cls s = [CHR 0x0A]"
    then have "CHR 0x0A \<in> set (dropWhile cls s)" by simp
    then have "CHR 0x0A \<in> set s" by (rule set_dropWhileD)
    with assms show False by simp
  qed
  moreover have "(takeWhile cls s \<noteq> [] \<and> dropWhile cls s = []) = (s \<noteq> [] \<and> list_all cls s)"
    by (cases s) (auto simp: list_all_iff dropWhile_eq_Nil_conv)
  ultimately show ?thesis
    by (auto simp: re_match_class_plus_def Let_def)
qed

lemma linq_select_head_validated:
  "linq_select_head tbl b = Inr h \<Longrightarrow> \<not> count_only b \<Longrightarrow>
   \<forall>f \<in> set (opt_list (select_fields b)). validate_column_name f = Inr f"
  by (auto simp: linq_select_head_def Let_def split: if_splits sum.splits
      dest: validate_column_names_all)

lemma linq_group_by_validated:
  "linq_group_by b = Inr g \<Longrightarrow>
   \<forall>f \<in> set (opt_list (group_by_fields b)). validate_column_name f = Inr f"
  by (auto simp: linq_group_by_def split: if_splits sum.splits dest: validate_column_names_all)

lemma linq_order_by_validated:
  "linq_order_by b = Inr g \<Longrightarrow>
   \<forall>(f, d) \<in> set (order_by_fields b). validate_column_name f = Inr f"
  by (auto simp: linq_order_by_def split: if_splits sum.splits dest: order_parts_validated)

lemma linq_statement_parts:
  assumes "linq_statement t b = Inr r"
  shows "\<exists>h g ob. linq_select_head t b = Inr h \<and> linq_group_by b = Inr g \<and> linq_order_by b = Inr ob"
  using assms
  by (auto simp: linq_statement_def Let_def split: sum.splits prod.splits)

text \<open>
  The other clauses. When \<^verbatim>\<open>PostgreSQLAdapter.query_linq\<close> produces a statement, the table
  name has been accepted by \<^verbatim>\<open>validate_table_name\<close> and every column name of the SELECT
  list (unless the query is count-only, which interpolates none), of GROUP BY and of
  ORDER BY has been accepted by \<^verbatim>\<open>validate_column_name\<close>. On a string without a line
  feed, \<^verbatim>\<open>validate_column_name\<close> accepts exactly the non-empty strings of alphanumeric
  characters and underscores, \<^verbatim>\<open>validate_table_name\<close> exactly the non-empty strings of
  alphanumeric characters, underscores and hyphens, and each rejects every other such
  string with \<^verbatim>\<open>ValidationError\<close>.
\<close>

theorem linq_identifiers_validated:
  "(pg_query_linq_statement tbl b = Inr (sql, params) \<longrightarrow>
      validate_table_name tbl = Inr tbl
      \<and> (\<not> count_only b \<longrightarrow>
           (\<forall>f \<in> set (opt_list (select_fields b)). validate_column_name f = Inr f))
      \<and> (\<forall>f \<in> set (opt_list (group_by_fields b)). validate_column_name f = Inr f)
      \<and> (\<forall>(f, d) \<in> set (order_by_fields b). validate_column_name f = Inr f))
   \<and> (CHR 0x0A \<notin> set s \<longrightarrow>
        validate_column_name s =
          (if s \<noteq> [] \<and> list_all is_alnum_underscore s then Inr s else Inl ValidationError)
        \<and> validate_table_name s =
          (if s \<noteq> [] \<and> list_all is_alnum_underscore_hyphen s then Inr s
           else Inl ValidationError))"
proof (intro conjI impI)
  assume a: "pg_query_linq_statement tbl b = Inr (sql, params)"
  then show t: "validate_table_name tbl = Inr tbl"
    by (auto simp: pg_query_linq_statement_def validate_table_name_def split: sum.splits if_splits)
  from a t have "\<exists>r. linq_statement tbl b = Inr r"
    by (auto simp: pg_query_linq_statement_def split: sum.splits)
  then obtain h g ob where
    parts: "linq_select_head tbl b = Inr h" "linq_group_by b = Inr g" "linq_order_by b = Inr ob"
    using linq_statement_parts by blast
  show "\<forall>f \<in> set (opt_list (group_by_fields b)). validate_column_name f = Inr f"
    using parts(2) by (rule linq_group_by_validated)
  show "\<forall>(f, d) \<in> set (order_by_fields b). validate_column_name f = Inr f"
    using parts(3) by (rule linq_order_by_validated)
  assume "\<not> count_only b"
  with parts(1) show "\<forall>f \<in> set (opt_list (select_fields b)). validate_column_name f = Inr f"
    by (rule linq_select_head_validated)
next
  assume "CHR 0x0A \<notin> set s"
  then show "validate_column_name s =
      (if s \<noteq> [] \<and> list_all is_alnum_underscore s then Inr s else Inl ValidationError)"
    by (simp add: validate_column_name_def re_match_class_plus_iff)
next
  assume "CHR 0x0A \<notin> set s"
  then show "validate_table_name s =
      (if s \<noteq> [] \<and> list_all is_alnum_underscore_hyphen s then Inr s
       else Inl ValidationError)"
    by (simp add: validate_table_name_def re_match_class_plus_iff)
qed

text \<open>The definitions that evaluate a statement on a concrete query.\<close>

lemmas linq_eval =
  pg_query_linq_statement_def linq_statement_def linq_select_head_def linq_group_by_def
  linq_order_by_def linq_limit_offset_def to_sql_where_def filter_clause_def operand_items_def
  validate_table_name_def validate_column_name_def re_match_class_plus_def
  is_alnum_underscore_hyphen_def is_alnum_underscore_def opt_list_def new_builder_def
  where_filter_def order_by_def Let_def

text \<open>
  A table name with a hyphen, which is not a string of alphanumeric characters and
  underscores, is accepted and interpolated into the statement: the pattern of
  \<^verbatim>\<open>validate_table_name\<close> holds the hyphen.
\<close>

theorem hyphen_table_counterexample:
  "pg_query_linq_statement ''my-table'' new_builder = Inr (''SELECT * FROM my-table'', [])
   \<and> \<not> list_all is_alnum_underscore ''my-table''"
  by (simp add: linq_eval)

text \<open>The \<^verbatim>\<open>$\<close> of the pattern lets a name that ends in a line feed pass.\<close>

lemma trailing_line_feed_accepted:
  "validate_column_name (''abc'' @ [CHR 0x0A]) = Inr (''abc'' @ [CHR 0x0A])"
  by (simp add: linq_eval)

text \<open>The validated clauses at a query with a SELECT list, GROUP BY, ORDER BY and LIMIT.\<close>

theorem linq_identifiers_validated_witness:
  "pg_query_linq_statement ''orders''
      \<lparr>filters = [], order_by_fields = [(''created_at'', True)], skip_count = 0,
       take_count = Some 10, select_fields = Some [''id'', ''total''],
       group_by_fields = Some [''id'', ''total''], distinct_flag = False, count_only = False\<rparr>
     = Inr (''SELECT id, total FROM orders GROUP BY id, total ORDER BY created_at DESC LIMIT %s'',
            [Bound (Scalar (PInt 10))])
   \<and> validate_table_name ''orders'' = Inr ''orders''
   \<and> validate_column_name ''id'' = Inr ''id''
   \<and> validate_column_name ''total'' = Inr ''total''
   \<and> validate_column_name ''created_at'' = Inr ''created_at''
   \<and> validate_column_name ''user id'' = Inl ValidationError"
proof -
  let ?b = "\<lparr>filters = [], order_by_fields = [(''created_at'', True)], skip_count = 0,
       take_count = Some 10, select_fields = Some [''id'', ''total''],
       group_by_fields = Some [''id'', ''total''], distinct_flag = False, count_only = False\<rparr>"
  let ?sql = "''SELECT id, total FROM orders GROUP BY id, total ORDER BY created_at DESC LIMIT %s''"
  have run: "pg_query_linq_statement ''orders'' ?b = Inr (?sql, [Bound (Scalar (PInt 10))])"
    by (simp add: linq_eval)
  have nl: "CHR 0x0A \<notin> set ''user id''"
    by simp
  note inst = linq_identifiers_validated [of "''orders''" ?b ?sql "[Bound (Scalar (PInt 10))]" "''user id''"]
  from inst run have "validate_table_name ''orders'' = Inr ''orders''" by blast
  moreover from inst run have "\<forall>f \<in> set (opt_list (select_fields ?b)). validate_column_name f = Inr f"
    by simp
  moreover from inst run have "\<forall>(f, d) \<in> set (order_by_fields ?b). validate_column_name f = Inr f"
    by blast
  moreover from inst nl have "validate_column_name ''user id'' =
     (if ''user id'' \<noteq> [] \<and> list_all is_alnum_underscore ''user id'' then Inr ''user id'' else Inl ValidationError)"
    by blast
  ultimately show ?thesis using run
    by (simp add: opt_list_def is_alnum_underscore_def)
qed

text \<open>
  The WHERE clause. \<^verbatim>\<open>to_sql_where\<close> writes the field of every filter into its clause as
  it is, and the clauses reach the statement joined by \<^verbatim>\<open>AND\<close>.
\<close>

lemma filter_clause_field:
  "filter_clause f = Inr (c, ps) \<Longrightarrow> prefix (field f) c \<and> c \<noteq> []"
  by (auto simp: filter_clause_def split: Operator.splits sum.splits)

lemma where_clauses_fields:
  "where_clauses fs clauses params = Inr (clauses', params') \<Longrightarrow>
   set clauses \<subseteq> set clauses'
   \<and> (\<forall>f \<in> set fs. \<exists>c \<in> set clauses'. prefix (field f) c \<and> c \<noteq> [])"
proof (induction fs arbitrary: clauses params)
  case Nil
  then show ?case by simp
next
  case (Cons f fs)
  from Cons.prems obtain c ps where fc: "filter_clause f = Inr (c, ps)"
    and rest: "where_clauses fs (clauses @ [c]) (params @ ps) = Inr (clauses', params')"
    by (auto split: sum.splits)
  from Cons.IH [OF rest] have sub: "set (clauses @ [c]) \<subseteq> set clauses'"
    and tl: "\<forall>f \<in> set fs. \<exists>c \<in> set clauses'. prefix (field f) c \<and> c \<noteq> []" by simp_all
  from sub have "c \<in> set clauses'" by simp
  with filter_clause_field [OF fc] have "\<exists>c \<in> set clauses'. prefix (field f) c \<and> c \<noteq> []"
    by blast
  with sub tl show ?case by simp
qed

lemma sublist_join: "c \<in> set xs \<Longrightarrow> sublist c (join sep xs)"
proof (induction sep xs rule: join.induct)
  case (1 sep)
  then show ?case by simp
next
  case (2 sep x)
  then show ?case by simp
next
  case (3 sep x y zs)
  show ?case
  proof (cases "c = x")
    case True
    then show ?thesis by simp
  next
    case False
    with 3 have "sublist c (join sep (y # zs))" by simp
    then have "sublist c ((x @ sep) @ join sep (y # zs))"
      by (metis sublist_append)
    then show ?thesis by simp
  qed
qed

lemma sublist_chain: "sublist xs ys \<Longrightarrow> sublist ys zs \<Longrightarrow> sublist xs zs"
proof -
  assume "sublist xs ys" and "sublist ys zs"
  then obtain p1 s1 p2 s2 where "ys = p1 @ xs @ s1" and "zs = p2 @ ys @ s2"
    by (auto simp: sublist_def)
  then have "zs = (p2 @ p1) @ xs @ (s1 @ s2)" by simp
  then show ?thesis unfolding sublist_def by blast
qed

lemma to_sql_where_fields:
  assumes "to_sql_where b = Inr (clause, params)" and "f \<in> set (filters b)"
  shows "sublist (field f) clause \<and> clause \<noteq> []"
proof -
  from assms obtain clauses where wc: "where_clauses (filters b) [] [] = Inr (clauses, params)"
    and cl: "clause = join '' AND '' clauses"
    by (auto simp: to_sql_where_def split: if_splits sum.splits)
  from where_clauses_fields [OF wc] assms(2) obtain c where c: "c \<in> set clauses"
    and p: "prefix (field f) c" and ne: "c \<noteq> []" by blast
  have sc: "sublist c clause" unfolding cl using c by (rule sublist_join)
  from p have "sublist (field f) c" by (rule prefix_imp_sublist)
  with sc have "sublist (field f) clause" by (rule sublist_chain [rotated])
  moreover from sc ne have "clause \<noteq> []" by auto
  ultimately show ?thesis by simp
qed

text \<open>
  C6. The code diverges from the claim in the WHERE clause: \<^verbatim>\<open>PostgreSQLAdapter.query_linq\<close>
  interpolates the field of every filter without passing it to a validator. For every
  string \<open>fld\<close>, the query with the one filter \<open>fld = v\<close> on a table that passes
  \<^verbatim>\<open>validate_table_name\<close> yields the statement with \<open>fld\<close> in its text; and whenever a
  statement is produced, it has a WHERE clause that holds the field of each filter of
  the query, whatever characters the field is made of.
\<close>

theorem where_fields_interpolated_unvalidated:
  "pg_query_linq_statement tbl (where_filter fld EQ v new_builder) =
     (case validate_table_name tbl of
        Inl e \<Rightarrow> Inl e
      | Inr t \<Rightarrow> Inr (''SELECT * FROM '' @ t @ '' WHERE '' @ fld @ '' = %s'', [Bound v]))
   \<and> (pg_query_linq_statement tbl b = Inr (sql, params) \<longrightarrow>
        (\<forall>f \<in> set (filters b). sublist ('' WHERE '') sql \<and> sublist (field f) sql))"
proof (intro conjI impI ballI)
  show "pg_query_linq_statement tbl (where_filter fld EQ v new_builder) =
     (case validate_table_name tbl of
        Inl e \<Rightarrow> Inl e
      | Inr t \<Rightarrow> Inr (''SELECT * FROM '' @ t @ '' WHERE '' @ fld @ '' = %s'', [Bound v]))"
    by (simp add: pg_query_linq_statement_def linq_statement_def linq_select_head_def
        linq_group_by_def linq_order_by_def linq_limit_offset_def to_sql_where_def
        filter_clause_def opt_list_def new_builder_def where_filter_def Let_def
        split: sum.splits)
next
  fix f
  assume a: "pg_query_linq_statement tbl b = Inr (sql, params)" and f: "f \<in> set (filters b)"
  from a obtain t where "linq_statement t b = Inr (sql, params)"
    by (auto simp: pg_query_linq_statement_def split: sum.splits)
  then obtain head clause wparams group_sql order_sql where
    w: "to_sql_where b = Inr (clause, wparams)"
    and sql: "sql = head @ (if clause \<noteq> [] then '' WHERE '' @ clause else []) @ group_sql
                    @ order_sql @ fst (linq_limit_offset b)"
    by (auto simp: linq_statement_def Let_def split: sum.splits prod.splits)
  from to_sql_where_fields [OF w f] have sf: "sublist (field f) clause" and ne: "clause \<noteq> []"
    by simp_all
  let ?rest = "group_sql @ order_sql @ fst (linq_limit_offset b)"
  have s1: "sql = head @ '' WHERE '' @ (clause @ ?rest)" using sql ne by simp
  show "sublist '' WHERE '' sql" unfolding s1 by (rule sublist_appendI)
  from sf have "sublist (field f) ((head @ '' WHERE '') @ clause @ ?rest)"
    by (metis sublist_append)
  then show "sublist (field f) sql" using s1 by simp
qed

text \<open>
  The theorem at a filter whose field \<^verbatim>\<open>validate_column_name\<close> rejects: the statement
  is produced and carries the field.
\<close>

theorem where_fields_interpolated_unvalidated_witness:
  "validate_column_name ''id = id; DROP TABLE users; --'' = Inl ValidationError
   \<and> pg_query_linq_statement ''users''
       (where_filter ''id = id; DROP TABLE users; --'' EQ (Scalar (PInt 1)) new_builder)
     = Inr (''SELECT * FROM users WHERE id = id; DROP TABLE users; -- = %s'',
            [Bound (Scalar (PInt 1))])
   \<and> sublist ''id = id; DROP TABLE users; --''
        ''SELECT * FROM users WHERE id = id; DROP TABLE users; -- = %s''"
proof -
  let ?fld = "''id = id; DROP TABLE users; --''"
  let ?b = "where_filter ?fld EQ (Scalar (PInt 1)) new_builder"
  let ?sql = "''SELECT * FROM users WHERE id = id; DROP TABLE users; -- = %s''"
  have bad: "validate_column_name ?fld = Inl ValidationError"
    by (simp add: linq_eval)
  have tbl: "validate_table_name ''users'' = Inr ''users''"
    by (simp add: linq_eval)
  note inst = where_fields_interpolated_unvalidated
    [of "''users''" ?fld "Scalar (PInt 1)" ?b ?sql "[Bound (Scalar (PInt 1))]"]
  from conjunct1 [OF inst] tbl
  have run: "pg_query_linq_statement ''users'' ?b = Inr (?sql, [Bound (Scalar (PInt 1))])"
    by simp
  have mem: "\<lparr>field = ?fld, operator = EQ, operand = Scalar (PInt 1)\<rparr> \<in> set (filters ?b)"
    by (simp add: where_filter_def new_builder_def)
  from conjunct2 [OF inst] run mem have "sublist ?fld ?sql"
    by fastforce
  with bad run show ?thesis by simp
qed

section \<open>Overflow round trip\<close>


lemma retry_uncaught:
  assumes "func s = (Inl e, s')" and "\<not> catches e" and "0 < max_attempts"
  shows "retry max_attempts catches func s = (Inl e, s')"
  using assms by (simp add: retry_def retry_loop.simps)

lemma retry3_all_caught:
  assumes "func s0 = (Inl e, s1)" and "func s1 = (Inl e, s2)" and "func s2 = (Inl e, s3)"
    and "catches e"
  shows "retry 3 catches func s0 = (Inl e, s3)"
  using assms by (simp add: retry_def retry_loop.simps)

lemma retrieve_body_mismatch:
  assumes "py_truthy (dict_get stub ''_overflow'')"
    and "map_of stub ''_blob_key'' = Some (PStr key)"
    and "available os"
    and "blobs os key = Some blob"
    and "\<not> py_eq (PStr (md5_hexdigest L blob)) (dict_get stub ''_checksum'')"
  shows "retrieve_overflow_body L stub os = (Inl StorageError, os\<lparr>fetched := fetched os @ [key]\<rparr>)"
  using assms
  by (simp add: retrieve_overflow_body_def os_get_def Let_def split: option.splits)



lemma stub_fields:
  "py_truthy (dict_get (overflow_stub key n digest) ''_overflow'')"
  "map_of (overflow_stub key n digest) ''_blob_key'' = Some (PStr key)"
  "dict_get (overflow_stub key n digest) ''_checksum'' = PStr digest"
  "dict_get (overflow_stub key n digest) ''_size'' = PInt (int n)"
  by (simp_all add: overflow_stub_def dict_get_def)

lemma py_eq_PStr [simp]: "py_eq (PStr a) (PStr b) = (a = b)"
  by (simp add: py_eq_def)













section \<open>Retries of an integrity failure\<close>

text \<open>
  C5 (as amended). A checksum mismatch in \<^verbatim>\<open>_retrieve_overflow\<close> is raised as
  \<^verbatim>\<open>StorageError\<close>, the class its retry decorator catches: while the mismatch lasts the
  blob is fetched three times (\<^verbatim>\<open>max_attempts = 3\<close>) and the \<^verbatim>\<open>StorageError\<close> reaches the
  caller after the third attempt.
\<close>

theorem checksum_mismatch_retried:
  assumes "py_truthy (dict_get stub ''_overflow'')"
    and "map_of stub ''_blob_key'' = Some (PStr key)"
    and "available os"
    and "blobs os key = Some blob"
    and "\<not> py_eq (PStr (md5_hexdigest L blob)) (dict_get stub ''_checksum'')"
  shows "retrieve_overflow L stub os =
           (Inl StorageError, os\<lparr>fetched := fetched os @ [key, key, key]\<rparr>)"
proof -
  let ?s1 = "os\<lparr>fetched := fetched os @ [key]\<rparr>"
  let ?s2 = "?s1\<lparr>fetched := fetched ?s1 @ [key]\<rparr>"
  let ?s3 = "?s2\<lparr>fetched := fetched ?s2 @ [key]\<rparr>"
  have a1: "retrieve_overflow_body L stub os = (Inl StorageError, ?s1)"
    using assms by (rule retrieve_body_mismatch)
  have a2: "retrieve_overflow_body L stub ?s1 = (Inl StorageError, ?s2)"
    using assms by (intro retrieve_body_mismatch) simp_all
  have a3: "retrieve_overflow_body L stub ?s2 = (Inl StorageError, ?s3)"
    using assms by (intro retrieve_body_mismatch) simp_all
  have "retrieve_overflow L stub os = (Inl StorageError, ?s3)"
    unfolding retrieve_overflow_def
    by (rule retry3_all_caught [OF a1 a2 a3]) simp
  then show ?thesis by simp
qed

text \<open>
  C5 as stated fails: on a stub whose checksum does not match the stored blob the
  error reaches the caller only after three fetches of the blob, not one.
\<close>

theorem single_attempt_counterexample:
  "fst (retrieve_overflow (example_libs small_record) tampered_stub tampered_store)
     = Inl StorageError
   \<and> fetched (snd (retrieve_overflow (example_libs small_record) tampered_stub tampered_store))
     = [''overflow/k.json'', ''overflow/k.json'', ''overflow/k.json'']"
proof -
  let ?L = "example_libs small_record"
  let ?k = "''overflow/k.json''"
  let ?s1 = "tampered_store\<lparr>fetched := fetched tampered_store @ [?k]\<rparr>"
  let ?s2 = "?s1\<lparr>fetched := fetched ?s1 @ [?k]\<rparr>"
  let ?s3 = "?s2\<lparr>fetched := fetched ?s2 @ [?k]\<rparr>"
  have pre: "py_truthy (dict_get tampered_stub ''_overflow'')"
    "map_of tampered_stub ''_blob_key'' = Some (PStr ?k)"
    by (simp_all add: tampered_stub_def stub_fields)
  have bad: "\<not> py_eq (PStr (md5_hexdigest ?L (example_dumps small_record)))
                  (dict_get tampered_stub ''_checksum'')"
    by (simp add: tampered_stub_def stub_fields example_libs_def example_dumps_def
        small_record_def str_of_int_def str_of_nat.simps digit_char_def)
  have a1: "retrieve_overflow_body ?L tampered_stub tampered_store = (Inl StorageError, ?s1)"
    using pre bad by (intro retrieve_body_mismatch) (simp_all add: tampered_store_def)
  have a2: "retrieve_overflow_body ?L tampered_stub ?s1 = (Inl StorageError, ?s2)"
    using pre bad by (intro retrieve_body_mismatch) (simp_all add: tampered_store_def)
  have a3: "retrieve_overflow_body ?L tampered_stub ?s2 = (Inl StorageError, ?s3)"
    using pre bad by (intro retrieve_body_mismatch) (simp_all add: tampered_store_def)
  have "retrieve_overflow ?L tampered_stub tampered_store = (Inl StorageError, ?s3)"
    unfolding retrieve_overflow_def
    by (rule retry3_all_caught [OF a1 a2 a3]) simp
  then show ?thesis
    by (simp add: tampered_store_def)
qed

text \<open>The theorem at the same stub and store.\<close>

theorem checksum_mismatch_retried_witness:
  "retrieve_overflow (example_libs small_record) tampered_stub tampered_store
     = (Inl StorageError,
        tampered_store\<lparr>fetched := [''overflow/k.json'', ''overflow/k.json'', ''overflow/k.json'']\<rparr>)"
proof -
  let ?L = "example_libs small_record"
  have a: "py_truthy (dict_get tampered_stub ''_overflow'')"
    and b: "map_of tampered_stub ''_blob_key'' = Some (PStr ''overflow/k.json'')"
    by (simp_all add: tampered_stub_def stub_fields)
  have c: "available tampered_store"
    and d: "blobs tampered_store ''overflow/k.json'' = Some (example_dumps small_record)"
    by (simp_all add: tampered_store_def)
  have e: "\<not> py_eq (PStr (md5_hexdigest ?L (example_dumps small_record)))
                  (dict_get tampered_stub ''_checksum'')"
    by (simp add: tampered_stub_def stub_fields example_libs_def example_dumps_def
        small_record_def str_of_int_def str_of_nat.simps digit_char_def)
  show ?thesis
    using checksum_mismatch_retried [OF a b c d e] by (simp add: tampered_store_def)
qed

section \<open>Ordering in the in-memory pipeline\<close>

text \<open>
  The stable sort, in either direction: a permutation, ordered by the key, and with
  equal keys in their original order.
\<close>

lemma stable_sort_mset: "mset (stable_sort k r xs) = mset xs"
  by (simp add: stable_sort_def)

lemma stable_sort_stable:
  "filter (\<lambda>y. k y = c) (stable_sort k r xs) = filter (\<lambda>y. k y = c) xs"
proof (cases r)
  case False
  then show ?thesis by (simp add: stable_sort_def sort_key_stable)
next
  case True
  have "filter (\<lambda>y. k y = c) (rev (sort_key k (rev xs)))
      = rev (filter (\<lambda>y. k y = c) (sort_key k (rev xs)))"
    by (simp add: rev_filter)
  also have "\<dots> = rev (filter (\<lambda>y. k y = c) (rev xs))"
    by (simp add: sort_key_stable)
  also have "\<dots> = filter (\<lambda>y. k y = c) xs"
    by (simp add: rev_filter)
  finally show ?thesis using True by (simp add: stable_sort_def)
qed

lemma stable_sort_sorted:
  "sorted_wrt (\<lambda>x y. if r then k y \<le> k x else k x \<le> k y) (stable_sort k r xs)"
proof (cases r)
  case False
  have "sorted (map k (sort_key k xs))" by simp
  then have "sorted_wrt (\<lambda>x y. k x \<le> k y) (sort_key k xs)"
    by (simp add: sorted_map)
  with False show ?thesis by (simp add: stable_sort_def)
next
  case True
  have "sorted (map k (sort_key k (rev xs)))" by simp
  then have "sorted_wrt (\<lambda>x y. k x \<le> k y) (sort_key k (rev xs))"
    by (simp add: sorted_map)
  then have "sorted_wrt (\<lambda>x y. k y \<le> k x) (rev (sort_key k (rev xs)))"
    by (simp add: sorted_wrt_rev)
  with True show ?thesis by (simp add: stable_sort_def)
qed

lemma short_list_sorted_wrt: "length xs < 2 \<Longrightarrow> sorted_wrt P xs"
  by (cases xs) (auto simp: Suc_less_eq2 dest: length_0_conv [THEN iffD1])

lemma key_before_num:
  "is_num a \<Longrightarrow> is_num b \<Longrightarrow>
   key_before d a b = (if d then num_of b \<le> num_of a else num_of a \<le> num_of b)"
  by (cases a; cases b) (auto simp: key_before_def is_num_def num_of_def)

lemma key_before_str:
  "is_str a \<Longrightarrow> is_str b \<Longrightarrow>
   key_before d a b = (if d then str_of b \<le> str_of a else str_of a \<le> str_of b)"
  by (cases a; cases b) (auto simp: key_before_def is_str_def str_of_def)

lemma py_eq_num:
  "is_num a \<Longrightarrow> py_eq a v = (is_num v \<and> num_of a = num_of v)"
  by (cases a; cases v) (auto simp: py_eq_def is_num_def num_of_def)

lemma py_eq_str:
  "is_str a \<Longrightarrow> py_eq a v = (is_str v \<and> str_of a = str_of v)"
  by (cases a; cases v) (auto simp: py_eq_def is_str_def str_of_def)

lemma filter_is_num_key:
  assumes "list_all (\<lambda>x. is_num (key x)) xs"
  shows "filter (\<lambda>x. py_eq (key x) v) xs
       = (if is_num v then filter (\<lambda>x. num_of (key x) = num_of v) xs else [])"
  using assms by (induction xs) (auto simp: py_eq_num)

lemma filter_is_str_key:
  assumes "list_all (\<lambda>x. is_str (key x)) xs"
  shows "filter (\<lambda>x. py_eq (key x) v) xs
       = (if is_str v then filter (\<lambda>x. str_of (key x) = str_of v) xs else [])"
  using assms by (induction xs) (auto simp: py_eq_str)

lemma list_all_mset_cong:
  "mset ys = mset xs \<Longrightarrow> list_all P ys = list_all P xs"
  by (metis list_all_iff mset_eq_setD)

lemma sorted_wrt_cong_set:
  "(\<And>x y. x \<in> set xs \<Longrightarrow> y \<in> set xs \<Longrightarrow> P x y = Q x y) \<Longrightarrow> sorted_wrt P xs = sorted_wrt Q xs"
  by (induction xs) auto

text \<open>What \<^verbatim>\<open>sorted\<close> guarantees when it does not raise.\<close>

lemma py_sorted_out:
  assumes "py_sorted key d xs = Inr out" and "\<not> length xs < 2"
  shows "(list_all (\<lambda>x. is_num (key x)) xs \<and> out = stable_sort (\<lambda>x. num_of (key x)) d xs)
       \<or> (list_all (\<lambda>x. is_str (key x)) xs \<and> out = stable_sort (\<lambda>x. str_of (key x)) d xs)"
  using assms unfolding py_sorted_def by (simp split: if_splits)

lemma num_sorted_props:
  assumes all: "list_all (\<lambda>x. is_num (key x)) xs"
    and out: "out = stable_sort (\<lambda>x. num_of (key x)) d xs"
  shows "mset out = mset xs
       \<and> sorted_wrt (\<lambda>x y. key_before d (key x) (key y)) out
       \<and> (\<forall>v. filter (\<lambda>x. py_eq (key x) v) out = filter (\<lambda>x. py_eq (key x) v) xs)"
proof (intro conjI allI)
  show m: "mset out = mset xs" by (simp add: out stable_sort_mset)
  have all': "list_all (\<lambda>x. is_num (key x)) out"
    using all list_all_mset_cong [OF m] by simp
  have "sorted_wrt (\<lambda>x y. if d then num_of (key y) \<le> num_of (key x)
                           else num_of (key x) \<le> num_of (key y)) out"
    unfolding out by (rule stable_sort_sorted)
  moreover have "sorted_wrt (\<lambda>x y. key_before d (key x) (key y)) out
      = sorted_wrt (\<lambda>x y. if d then num_of (key y) \<le> num_of (key x)
                           else num_of (key x) \<le> num_of (key y)) out"
  proof (rule sorted_wrt_cong_set)
    fix x y assume "x \<in> set out" "y \<in> set out"
    with all' have "is_num (key x)" "is_num (key y)" by (simp_all add: list_all_iff)
    then show "key_before d (key x) (key y)
        = (if d then num_of (key y) \<le> num_of (key x) else num_of (key x) \<le> num_of (key y))"
      by (rule key_before_num)
  qed
  ultimately show "sorted_wrt (\<lambda>x y. key_before d (key x) (key y)) out" by simp
  fix v
  show "filter (\<lambda>x. py_eq (key x) v) out = filter (\<lambda>x. py_eq (key x) v) xs"
  proof (cases "is_num v")
    case True
    have "filter (\<lambda>x. py_eq (key x) v) out = filter (\<lambda>x. num_of (key x) = num_of v) out"
      using filter_is_num_key [OF all', of v] True by simp
    also have "\<dots> = filter (\<lambda>x. num_of (key x) = num_of v) xs"
      unfolding out by (rule stable_sort_stable)
    also have "\<dots> = filter (\<lambda>x. py_eq (key x) v) xs"
      using filter_is_num_key [OF all, of v] True by simp
    finally show ?thesis .
  next
    case False
    then show ?thesis
      using filter_is_num_key [OF all', of v] filter_is_num_key [OF all, of v] by simp
  qed
qed

lemma str_sorted_props:
  assumes all: "list_all (\<lambda>x. is_str (key x)) xs"
    and out: "out = stable_sort (\<lambda>x. str_of (key x)) d xs"
  shows "mset out = mset xs
       \<and> sorted_wrt (\<lambda>x y. key_before d (key x) (key y)) out
       \<and> (\<forall>v. filter (\<lambda>x. py_eq (key x) v) out = filter (\<lambda>x. py_eq (key x) v) xs)"
proof (intro conjI allI)
  show m: "mset out = mset xs" by (simp add: out stable_sort_mset)
  have all': "list_all (\<lambda>x. is_str (key x)) out"
    using all list_all_mset_cong [OF m] by simp
  have "sorted_wrt (\<lambda>x y. if d then str_of (key y) \<le> str_of (key x)
                           else str_of (key x) \<le> str_of (key y)) out"
    unfolding out by (rule stable_sort_sorted)
  moreover have "sorted_wrt (\<lambda>x y. key_before d (key x) (key y)) out
      = sorted_wrt (\<lambda>x y. if d then str_of (key y) \<le> str_of (key x)
                           else str_of (key x) \<le> str_of (key y)) out"
  proof (rule sorted_wrt_cong_set)
    fix x y assume "x \<in> set out" "y \<in> set out"
    with all' have "is_str (key x)" "is_str (key y)" by (simp_all add: list_all_iff)
    then show "key_before d (key x) (key y)
        = (if d then str_of (key y) \<le> str_of (key x) else str_of (key x) \<le> str_of (key y))"
      by (rule key_before_str)
  qed
  ultimately show "sorted_wrt (\<lambda>x y. key_before d (key x) (key y)) out" by simp
  fix v
  show "filter (\<lambda>x. py_eq (key x) v) out = filter (\<lambda>x. py_eq (key x) v) xs"
  proof (cases "is_str v")
    case True
    have "filter (\<lambda>x. py_eq (key x) v) out = filter (\<lambda>x. str_of (key x) = str_of v) out"
      using filter_is_str_key [OF all', of v] True by simp
    also have "\<dots> = filter (\<lambda>x. str_of (key x) = str_of v) xs"
      unfolding out by (rule stable_sort_stable)
    also have "\<dots> = filter (\<lambda>x. py_eq (key x) v) xs"
      using filter_is_str_key [OF all, of v] True by simp
    finally show ?thesis .
  next
    case False
    then show ?thesis
      using filter_is_str_key [OF all', of v] filter_is_str_key [OF all, of v] by simp
  qed
qed

lemma py_sorted_props:
  assumes "py_sorted key d xs = Inr out"
  shows "mset out = mset xs
       \<and> sorted_wrt (\<lambda>x y. key_before d (key x) (key y)) out
       \<and> (\<forall>v. filter (\<lambda>x. py_eq (key x) v) out = filter (\<lambda>x. py_eq (key x) v) xs)"
proof (cases "length xs < 2")
  case True
  with assms have "out = xs" by (simp add: py_sorted_def)
  with True show ?thesis by (simp add: short_list_sorted_wrt)
next
  case False
  from py_sorted_out [OF assms False] show ?thesis
    using num_sorted_props str_sorted_props by blast
qed

lemma ordering_loop_snoc:
  "ordering_loop (fs @ [(f, d)]) rs =
     (case ordering_loop fs rs of
        Inl e \<Rightarrow> Inl e
      | Inr mid \<Rightarrow> py_sorted (order_key f) d mid)"
  by (induction fs rs rule: ordering_loop.induct) (auto split: sum.splits)

lemma ordering_loop_mset:
  "ordering_loop fs rs = Inr out \<Longrightarrow> mset out = mset rs"
proof (induction fs rs rule: ordering_loop.induct)
  case (1 results)
  then show ?case by simp
next
  case (2 f descending rest results)
  then show ?case
    by (auto split: sum.splits dest!: py_sorted_props)
qed

text \<open>
  C4 (as amended). In the in-memory pipeline the result of the ordering step is the
  stable multi-key sort in which the first \<^verbatim>\<open>order_by\<close> call supplies the primary
  (most significant) key and later calls break ties: when the step does not raise, its
  result is the stable sort by the first call's key of the list ordered by the
  remaining calls, a permutation of the input, ordered by the first call's key in its
  direction, with records of equal first key in the order the remaining calls gave.
\<close>

theorem first_order_by_is_primary:
  assumes fields: "order_by_fields b = (f, d) # rest"
    and run: "apply_ordering rs b = Inr out"
  shows "\<exists>mid. apply_ordering rs (b\<lparr>order_by_fields := rest\<rparr>) = Inr mid
           \<and> py_sorted (order_key f) d mid = Inr out
           \<and> mset out = mset rs
           \<and> sorted_wrt (\<lambda>x y. key_before d (order_key f x) (order_key f y)) out
           \<and> (\<forall>v. filter (\<lambda>x. py_eq (order_key f x) v) out
                  = filter (\<lambda>x. py_eq (order_key f x) v) mid)"
proof -
  have "ordering_loop (rev rest @ [(f, d)]) rs = Inr out"
    using fields run by (simp add: apply_ordering_def)
  then obtain mid where mid: "ordering_loop (rev rest) rs = Inr mid"
    and last: "py_sorted (order_key f) d mid = Inr out"
    by (auto simp: ordering_loop_snoc split: sum.splits)
  have rest: "apply_ordering rs (b\<lparr>order_by_fields := rest\<rparr>) = Inr mid"
    using mid by (cases rest) (simp_all add: apply_ordering_def)
  have "mset mid = mset rs"
    using mid by (rule ordering_loop_mset)
  with py_sorted_props [OF last] rest last show ?thesis
    by auto
qed


text \<open>The definitions that evaluate the ordering step on the example records.\<close>

lemmas ordering_eval =
  apply_ordering_def order_by_def new_builder_def py_sorted_def stable_sort_def
  order_key_def dict_get_default_def is_num_def num_of_def key_before_def
  rec_a1_b2_def rec_a2_b1_def

text \<open>
  C4 as stated fails: after \<^verbatim>\<open>order_by('a')\<close> and then \<^verbatim>\<open>order_by('b')\<close> the result is
  ordered by \<open>a\<close>, the first call, and is not ordered by \<open>b\<close>, the last call.
\<close>

theorem last_order_by_primary_counterexample:
  "apply_ordering [rec_a2_b1, rec_a1_b2] (order_by ''b'' False (order_by ''a'' False new_builder))
     = Inr [rec_a1_b2, rec_a2_b1]
   \<and> \<not> sorted_wrt (\<lambda>x y. key_before False (order_key ''b'' x) (order_key ''b'' y))
         [rec_a1_b2, rec_a2_b1]"
  by (simp add: ordering_eval)

text \<open>The theorem at the same records and calls.\<close>

theorem first_order_by_is_primary_witness:
  "apply_ordering [rec_a2_b1, rec_a1_b2] (order_by ''b'' False (order_by ''a'' False new_builder))
     = Inr [rec_a1_b2, rec_a2_b1]
   \<and> sorted_wrt (\<lambda>x y. key_before False (order_key ''a'' x) (order_key ''a'' y))
         [rec_a1_b2, rec_a2_b1]
   \<and> py_sorted (order_key ''a'') False [rec_a2_b1, rec_a1_b2] = Inr [rec_a1_b2, rec_a2_b1]"
proof -
  let ?b = "order_by ''b'' False (order_by ''a'' False new_builder)"
  have fields: "order_by_fields ?b = (''a'', False) # [(''b'', False)]"
    by (simp add: order_by_def new_builder_def)
  have run: "apply_ordering [rec_a2_b1, rec_a1_b2] ?b = Inr [rec_a1_b2, rec_a2_b1]"
    by (simp add: ordering_eval)
  have rest: "apply_ordering [rec_a2_b1, rec_a1_b2] (?b\<lparr>order_by_fields := [(''b'', False)]\<rparr>)
      = Inr [rec_a2_b1, rec_a1_b2]"
    by (simp add: ordering_eval)
  from first_order_by_is_primary [OF fields run] rest
  have "py_sorted (order_key ''a'') False [rec_a2_b1, rec_a1_b2] = Inr [rec_a1_b2, rec_a2_b1]"
    and "sorted_wrt (\<lambda>x y. key_before False (order_key ''a'' x) (order_key ''a'' y))
           [rec_a1_b2, rec_a2_b1]"
    by auto
  with run show ?thesis by simp
qed

section \<open>The stages of \<^verbatim>\<open>query_linq\<close>\<close>

text \<open>
  A read of an overflow stub leaves the content of the object store as it is, and a
  successful read returns the full record of the raw record; the retry loop keeps
  both facts.
\<close>

lemma retrieve_body_store:
  "blobs (snd (retrieve_overflow_body L r os)) = blobs os
   \<and> available (snd (retrieve_overflow_body L r os)) = available os"
  by (auto simp: retrieve_overflow_body_def os_get_def Let_def
      split: option.splits pyval.splits prod.splits)

lemma retrieve_body_resolves:
  "retrieve_overflow_body L r os = (Inr h, os') \<Longrightarrow> resolves L os r h"
  by (auto simp: retrieve_overflow_body_def resolves_def os_get_def Let_def
      split: option.splits pyval.splits prod.splits if_splits)

lemma retry_loop_success:
  "(\<And>s. I s \<Longrightarrow> I (snd (f s))) \<Longrightarrow> I s \<Longrightarrow>
   retry_loop m c f a s = (Inr (Some r), s') \<Longrightarrow>
   \<exists>s0. I s0 \<and> f s0 = (Inr r, s')"
proof (induction m c f a s rule: retry_loop.induct)
  case (1 m c f a s)
  note run = "1.prems"(3)
  have lt: "a < m"
    using run by (subst (asm) retry_loop.simps) (auto split: if_splits)
  obtain res s1 where fs: "f s = (res, s1)" by (cases "f s")
  have I1: "I s1" using "1.prems"(1) [OF "1.prems"(2)] fs by simp
  show ?case
  proof (cases res)
    case (Inr x)
    with fs lt run have "x = r \<and> s1 = s'"
      by (subst (asm) retry_loop.simps) simp
    with fs Inr "1.prems"(2) show ?thesis by auto
  next
    case (Inl e)
    with fs lt run have more: "c e" "\<not> m \<le> a + 1" "retry_loop m c f (a + 1) s1 = (Inr (Some r), s')"
      by (subst (asm) retry_loop.simps, simp split: if_splits)+
    have "\<exists>s0. I s0 \<and> f s0 = (Inr r, s')"
      using "1.IH" [OF lt fs [symmetric] Inl more(1) more(2) "1.prems"(1) I1 more(3)] by simp
    then show ?thesis .
  qed
qed

lemma retry_loop_invariant:
  "(\<And>s. I s \<Longrightarrow> I (snd (f s))) \<Longrightarrow> I s \<Longrightarrow> I (snd (retry_loop m c f a s))"
proof (induction m c f a s rule: retry_loop.induct)
  case (1 m c f a s)
  obtain res s1 where fs: "f s = (res, s1)" by (cases "f s")
  have I1: "I s1" using "1.prems"(1) [OF "1.prems"(2)] fs by simp
  show ?case
  proof (cases "a < m")
    case False
    then show ?thesis using "1.prems"(2) by (subst retry_loop.simps) simp
  next
    case lt: True
    show ?thesis
    proof (cases res)
      case (Inr x)
      with fs lt I1 show ?thesis by (subst retry_loop.simps) simp
    next
      case (Inl e)
      show ?thesis
      proof (cases "c e \<and> \<not> m \<le> a + 1")
        case True
        then have "I (snd (retry_loop m c f (a + 1) s1))"
          using "1.IH" [OF lt fs [symmetric] Inl _ _ "1.prems"(1) I1] by simp
        with fs lt Inl True show ?thesis by (subst retry_loop.simps) simp
      next
        case False
        with fs lt Inl I1 show ?thesis by (subst retry_loop.simps) auto
      qed
    qed
  qed
qed

lemma retrieve_overflow_store:
  "blobs (snd (retrieve_overflow L r os)) = blobs os
   \<and> available (snd (retrieve_overflow L r os)) = available os"
proof -
  let ?I = "\<lambda>s. blobs s = blobs os \<and> available s = available os"
  have "?I (snd (retry_loop 3 (\<lambda>e. e = StorageError) (retrieve_overflow_body L r) 0 os))"
    by (rule retry_loop_invariant [where I = ?I]) (simp_all add: retrieve_body_store)
  then show ?thesis by (simp add: retrieve_overflow_def retry_def)
qed

lemma resolves_store_cong:
  "blobs os1 = blobs os2 \<Longrightarrow> available os1 = available os2 \<Longrightarrow> resolves L os1 = resolves L os2"
  by (intro ext) (auto simp: resolves_def split: option.splits pyval.splits)

lemma retrieve_overflow_resolves:
  assumes "retrieve_overflow L r os = (Inr (Some h), os')"
  shows "resolves L os r h"
proof -
  let ?I = "\<lambda>s. blobs s = blobs os \<and> available s = available os"
  have "\<exists>s0. ?I s0 \<and> retrieve_overflow_body L r s0 = (Inr h, os')"
    by (rule retry_loop_success [where I = ?I and m = 3 and c = "\<lambda>e. e = StorageError" and a = 0 and s = os])
       (use assms in \<open>simp_all add: retrieve_body_store retrieve_overflow_def retry_def\<close>)
  then obtain s0 where s0: "?I s0" "retrieve_overflow_body L r s0 = (Inr h, os')" by blast
  have "resolves L s0 r h" using s0(2) by (rule retrieve_body_resolves)
  moreover have "resolves L s0 = resolves L os" using s0(1) by (intro resolves_store_cong) simp_all
  ultimately show ?thesis by simp
qed

lemma retrieve_all_resolves:
  "retrieve_all L raws os = (Inr hs, os') \<Longrightarrow>
   list_all2 (resolves L os) raws hs \<and> blobs os' = blobs os \<and> available os' = available os"
proof (induction raws arbitrary: os hs os')
  case Nil
  then show ?case by simp
next
  case (Cons r raws)
  obtain res os1 where r1: "retrieve_overflow L r os = (res, os1)" by (cases "retrieve_overflow L r os")
  from Cons.prems r1 obtain h where res: "res = Inr (Some h)"
    by (auto simp: returned_def split: sum.splits option.splits prod.splits)
  from Cons.prems r1 res obtain hs' where
    tl: "retrieve_all L raws os1 = (Inr hs', os')" and hs: "hs = h # hs'"
    by (auto simp: returned_def split: sum.splits prod.splits)
  have st1: "blobs os1 = blobs os \<and> available os1 = available os"
    using retrieve_overflow_store [of L r os] r1 by simp
  have h: "resolves L os r h"
    using r1 res by (intro retrieve_overflow_resolves) simp
  from Cons.IH [OF tl] have "list_all2 (resolves L os1) raws hs'"
    and st': "blobs os' = blobs os1 \<and> available os' = available os1" by simp_all
  moreover have "resolves L os1 = resolves L os"
    using st1 by (intro resolves_store_cong) simp_all
  ultimately show ?case using h hs st1 by simp
qed

text \<open>
  The stages of the source against the stages in the words of the specification. The
  two loops of \<^verbatim>\<open>_apply_filters\<close> keep, in order, the records that no filter rejects.
\<close>

lemma item_matches_spec:
  "(item_matches fs item = Inr True) = spec_record_matches fs item"
  by (induction fs) (auto simp: spec_record_matches_def split: sum.splits bool.splits)

lemma filter_items_spec:
  "filter_items fs items acc = Inr out \<Longrightarrow>
   out = acc @ filter (spec_record_matches fs) items"
proof (induction items arbitrary: acc)
  case Nil
  then show ?case by simp
next
  case (Cons item items)
  show ?case
  proof (cases "item_matches fs item")
    case (Inl e)
    with Cons.prems show ?thesis by simp
  next
    case (Inr m)
    show ?thesis
    proof (cases m)
      case True
      with Inr Cons.prems have "filter_items fs items (acc @ [item]) = Inr out" by simp
      from Cons.IH [OF this] Inr True show ?thesis
        by (simp add: item_matches_spec [symmetric])
    next
      case False
      with Inr Cons.prems have "filter_items fs items acc = Inr out" by simp
      from Cons.IH [OF this] Inr False show ?thesis
        by (simp add: item_matches_spec [symmetric])
    qed
  qed
qed

lemma apply_filters_spec:
  "apply_filters rows b = Inr filtered \<Longrightarrow>
   filtered = filter (spec_record_matches (filters b)) rows"
  by (auto simp: apply_filters_def spec_record_matches_def dest: filter_items_spec
      split: if_splits)

text \<open>
  For a skip and a take that are not negative, the two slices of \<^verbatim>\<open>_apply_pagination\<close>
  are \<^verbatim>\<open>slice(skip, skip + take)\<close>; a take of \<^verbatim>\<open>None\<close> or zero sets no upper bound.
\<close>

lemma spec_slice_take_drop:
  "spec_slice lo (lo + n) xs = take n (drop lo xs)"
proof (rule nth_equalityI)
  show "length (spec_slice lo (lo + n) xs) = length (take n (drop lo xs))"
    by (auto simp: spec_slice_def)
next
  fix i assume "i < length (spec_slice lo (lo + n) xs)"
  then have "i < min (lo + n) (length xs) - lo" by (simp add: spec_slice_def)
  then have i: "i < n" "lo + i < length xs" by (auto simp: min_def split: if_splits)
  then have "[lo ..< min (lo + n) (length xs)] ! i = lo + i" by simp
  with i show "spec_slice lo (lo + n) xs ! i = take n (drop lo xs) ! i"
    by (simp add: spec_slice_def)
qed

lemma spec_slice_take: "spec_slice 0 n xs = take n xs"
  using spec_slice_take_drop [of 0 n xs] by simp

lemma spec_slice_drop: "spec_slice lo (length xs) xs = drop lo xs"
proof -
  have "spec_slice lo (lo + (length xs - lo)) xs = take (length xs - lo) (drop lo xs)"
    by (rule spec_slice_take_drop)
  moreover have "spec_slice lo (lo + (length xs - lo)) xs = spec_slice lo (length xs) xs"
    by (simp add: spec_slice_def min_def)
  ultimately show ?thesis by simp
qed

lemma apply_pagination_spec:
  assumes "0 \<le> skip_count b" and "\<forall>n. take_count b = Some n \<longrightarrow> 0 \<le> n"
  shows "apply_pagination rows b =
           spec_slice (nat (skip_count b))
             (case take_count b of
                Some n \<Rightarrow> if n = 0 then length rows else nat (skip_count b) + nat n
              | None \<Rightarrow> length rows)
             rows"
  using assms
  by (auto simp: apply_pagination_def slice_from_def slice_to_def Let_def
      spec_slice_take_drop spec_slice_take spec_slice_drop split: option.splits)

text \<open>
  \<^verbatim>\<open>_apply_projection\<close> restricts every record to the allow-list: a field on the list
  keeps its value and every other field is gone.
\<close>

lemma apply_projection_spec:
  "apply_projection rows b =
     (case select_fields b of
        None \<Rightarrow> rows
      | Some allowed \<Rightarrow> if allowed = [] then rows else map (spec_project allowed) rows)"
  by (auto simp: apply_projection_def spec_project_def opt_list_def split: option.splits
      intro!: filter_cong)

lemma spec_project_lookup:
  "map_of (spec_project allowed item) k = (if k \<in> set allowed then map_of item k else None)"
  by (induction item) (auto simp: spec_project_def)

text \<open>The loop of the distinct step keeps the first record of every serialisation.\<close>

lemma distinct_loop_spec:
  "distinct_loop L rs seen unique =
     unique @ spec_first_seen (json_dumps_sorted L)
                (filter (\<lambda>r. json_dumps_sorted L r \<notin> set seen) rs)"
proof (induction rs arbitrary: seen unique)
  case Nil
  then show ?case by simp
next
  case (Cons r rs)
  show ?case
  proof (cases "json_dumps_sorted L r \<in> set seen")
    case True
    then show ?thesis using Cons.IH [of seen unique] by (simp add: Let_def)
  next
    case False
    have "filter (\<lambda>y. json_dumps_sorted L y \<noteq> json_dumps_sorted L r)
            (filter (\<lambda>r. json_dumps_sorted L r \<notin> set seen) rs)
        = filter (\<lambda>x. json_dumps_sorted L x \<notin> set (json_dumps_sorted L r # seen)) rs"
      by (auto intro!: filter_cong)
    with False show ?thesis
      using Cons.IH [of "json_dumps_sorted L r # seen" "unique @ [r]"] by (simp add: Let_def)
  qed
qed

lemma apply_distinct_spec:
  "apply_distinct L rows b =
     (if distinct_flag b then spec_first_seen (json_dumps_sorted L) rows else rows)"
  by (simp add: apply_distinct_def distinct_loop_spec)


text \<open>The ordering step returns a permutation of its input.\<close>

lemma apply_ordering_mset:
  "apply_ordering rows b = Inr ordered \<Longrightarrow> mset ordered = mset rows"
  by (auto simp: apply_ordering_def split: if_splits dest: ordering_loop_mset)

text \<open>
  C3. For every query and every raw result set, \<^verbatim>\<open>query_linq\<close> first resolves every
  raw record (a stub to the record stored in its blob, any other record to itself)
  and runs the pipeline on the resolved records only, in the order filter, count
  short-circuit, order, paginate, project, distinct. Each stage is the one the
  specification describes: the filter stage keeps the records that no filter rejects;
  the order stage permutes them; the paginate stage is \<^verbatim>\<open>slice(skip, skip + take)\<close> (for
  a skip and take that are not negative, a take of zero setting no bound); the project
  stage restricts each record to the selected fields; the distinct stage keeps the
  first record of every canonical serialisation. A count-only query returns the number
  of filtered records and is not affected by the order, skip, take, select and distinct
  settings.
\<close>

theorem query_linq_resolves_then_stages:
  "fst (query_linq L ops b st) =
     (case fst (query_raw ops [] None (provider st)) of
        Inl e \<Rightarrow> Inl e
      | Inr raws \<Rightarrow>
          (case fst (retrieve_all L raws (object_store st)) of
             Inl e \<Rightarrow> Inl e
           | Inr hydrated \<Rightarrow>
               (case apply_filters hydrated b of
                  Inl e \<Rightarrow> Inl e
                | Inr filtered \<Rightarrow>
                    if count_only b then Inr (Count (length filtered))
                    else
                      (case apply_ordering filtered b of
                         Inl e \<Rightarrow> Inl e
                       | Inr ordered \<Rightarrow>
                           Inr (Rows (apply_distinct L
                                        (apply_projection (apply_pagination ordered b) b) b))))))
   \<and> (fst (retrieve_all L raws (object_store st)) = Inr hydrated \<longrightarrow>
        list_all2 (resolves L (object_store st)) raws hydrated)
   \<and> (apply_filters hydrated b = Inr filtered \<longrightarrow>
        filtered = filter (spec_record_matches (filters b)) hydrated)
   \<and> (apply_ordering filtered b = Inr ordered \<longrightarrow> mset ordered = mset filtered)
   \<and> (0 \<le> skip_count b \<and> (\<forall>n. take_count b = Some n \<longrightarrow> 0 \<le> n) \<longrightarrow>
        apply_pagination ordered b =
          spec_slice (nat (skip_count b))
            (case take_count b of
               Some n \<Rightarrow> if n = 0 then length ordered else nat (skip_count b) + nat n
             | None \<Rightarrow> length ordered)
            ordered)
   \<and> apply_projection page b =
        (case select_fields b of
           None \<Rightarrow> page
         | Some allowed \<Rightarrow> if allowed = [] then page else map (spec_project allowed) page)
   \<and> apply_distinct L projected b =
        (if distinct_flag b then spec_first_seen (json_dumps_sorted L) projected else projected)
   \<and> (count_only b \<longrightarrow>
        fst (query_linq L ops b st)
          = fst (query_linq L ops
                   (b\<lparr>order_by_fields := ob, skip_count := sk, take_count := tk,
                      select_fields := sf, distinct_flag := df\<rparr>) st))"
proof (intro conjI impI)
  show "fst (query_linq L ops b st) =
     (case fst (query_raw ops [] None (provider st)) of
        Inl e \<Rightarrow> Inl e
      | Inr raws \<Rightarrow>
          (case fst (retrieve_all L raws (object_store st)) of
             Inl e \<Rightarrow> Inl e
           | Inr hydrated \<Rightarrow>
               (case apply_filters hydrated b of
                  Inl e \<Rightarrow> Inl e
                | Inr filtered \<Rightarrow>
                    if count_only b then Inr (Count (length filtered))
                    else
                      (case apply_ordering filtered b of
                         Inl e \<Rightarrow> Inl e
                       | Inr ordered \<Rightarrow>
                           Inr (Rows (apply_distinct L
                                        (apply_projection (apply_pagination ordered b) b) b))))))"
    by (simp add: query_linq_def Let_def split: prod.splits sum.splits)
next
  assume "fst (retrieve_all L raws (object_store st)) = Inr hydrated"
  then have "retrieve_all L raws (object_store st)
      = (Inr hydrated, snd (retrieve_all L raws (object_store st)))"
    by (metis prod.collapse)
  then show "list_all2 (resolves L (object_store st)) raws hydrated"
    using retrieve_all_resolves by blast
next
  assume "apply_filters hydrated b = Inr filtered"
  then show "filtered = filter (spec_record_matches (filters b)) hydrated"
    by (rule apply_filters_spec)
next
  assume "apply_ordering filtered b = Inr ordered"
  then show "mset ordered = mset filtered"
    by (rule apply_ordering_mset)
next
  assume "0 \<le> skip_count b \<and> (\<forall>n. take_count b = Some n \<longrightarrow> 0 \<le> n)"
  then show "apply_pagination ordered b =
          spec_slice (nat (skip_count b))
            (case take_count b of
               Some n \<Rightarrow> if n = 0 then length ordered else nat (skip_count b) + nat n
             | None \<Rightarrow> length ordered)
            ordered"
    by (intro apply_pagination_spec) simp_all
next
  show "apply_projection page b =
        (case select_fields b of
           None \<Rightarrow> page
         | Some allowed \<Rightarrow> if allowed = [] then page else map (spec_project allowed) page)"
    by (rule apply_projection_spec)
next
  show "apply_distinct L projected b =
        (if distinct_flag b then spec_first_seen (json_dumps_sorted L) projected else projected)"
    by (rule apply_distinct_spec)
next
  assume "count_only b"
  then show "fst (query_linq L ops b st)
          = fst (query_linq L ops
                   (b\<lparr>order_by_fields := ob, skip_count := sk, take_count := tk,
                      select_fields := sf, distinct_flag := df\<rparr>) st)"
    by (simp add: query_linq_def Let_def apply_filters_def split: prod.splits sum.splits)
qed

text \<open>The definitions that evaluate the example query.\<close>

lemmas linq_example_eval =
  retrieve_overflow_def retry_def retry_loop.simps retrieve_overflow_body_def os_get_def
  returned_def tagged_stub_def overflow_stub_def dict_get_def tagged_state_def
  memory_ops_def example_libs_def example_dumps_def tagged_def tagged_query_def
  str_of_int_def str_of_nat.simps digit_char_def py_eq_def apply_filters_def
  filter_rejects_def operand_eq_def operand_cmp_def apply_ordering_def
  apply_pagination_def apply_projection_def apply_distinct_def opt_list_def
  slice_from_def slice_to_def py_sorted_def stable_sort_def order_key_def
  dict_get_default_def is_num_def num_of_def Let_def

text \<open>
  The theorem at a provider that holds five records and a stub, and a query that uses
  every stage: the filter on \<open>id\<close> passes the record behind the stub, which the stub
  itself would fail; the second filter removes one record; the descending order, the
  skip of one and the take of three leave the records 4, 3 and 2; the projection leaves
  their tags; and the distinct step removes the second \<open>y\<close>. The count-only query
  counts the five filtered records, whatever the other settings are.
\<close>

theorem query_linq_resolves_then_stages_witness:
  "fst (query_linq (example_libs (tagged 4 ''x'')) memory_ops tagged_query tagged_state)
     = Inr (Rows [[(''tag'', PStr ''x'')], [(''tag'', PStr ''y'')]])
   \<and> fst (query_linq (example_libs (tagged 4 ''x'')) memory_ops
            (tagged_query\<lparr>count_only := True\<rparr>) tagged_state)
     = Inr (Count 5)
   \<and> list_all2 (resolves (example_libs (tagged 4 ''x'')) (object_store tagged_state))
        [tagged 1 ''w'', tagged 2 ''y'', tagged 3 ''y'', tagged_stub, tagged 5 ''z'',
         tagged 6 ''q'']
        [tagged 1 ''w'', tagged 2 ''y'', tagged 3 ''y'', tagged 4 ''x'', tagged 5 ''z'',
         tagged 6 ''q'']
   \<and> filter (spec_record_matches (filters tagged_query))
        [tagged 1 ''w'', tagged 2 ''y'', tagged 3 ''y'', tagged 4 ''x'', tagged 5 ''z'',
         tagged 6 ''q'']
     = [tagged 1 ''w'', tagged 2 ''y'', tagged 3 ''y'', tagged 4 ''x'', tagged 6 ''q'']
   \<and> apply_ordering
        [tagged 1 ''w'', tagged 2 ''y'', tagged 3 ''y'', tagged 4 ''x'', tagged 6 ''q'']
        tagged_query
     = Inr [tagged 6 ''q'', tagged 4 ''x'', tagged 3 ''y'', tagged 2 ''y'', tagged 1 ''w'']
   \<and> spec_slice 1 4
        [tagged 6 ''q'', tagged 4 ''x'', tagged 3 ''y'', tagged 2 ''y'', tagged 1 ''w'']
     = [tagged 4 ''x'', tagged 3 ''y'', tagged 2 ''y'']
   \<and> map (spec_project [''tag'']) [tagged 4 ''x'', tagged 3 ''y'', tagged 2 ''y'']
     = [[(''tag'', PStr ''x'')], [(''tag'', PStr ''y'')], [(''tag'', PStr ''y'')]]
   \<and> spec_first_seen (json_dumps_sorted (example_libs (tagged 4 ''x'')))
        [[(''tag'', PStr ''x'')], [(''tag'', PStr ''y'')], [(''tag'', PStr ''y'')]]
     = [[(''tag'', PStr ''x'')], [(''tag'', PStr ''y'')]]
   \<and> mset [tagged 6 ''q'', tagged 4 ''x'', tagged 3 ''y'', tagged 2 ''y'', tagged 1 ''w'']
     = mset [tagged 1 ''w'', tagged 2 ''y'', tagged 3 ''y'', tagged 4 ''x'', tagged 6 ''q'']
   \<and> fst (query_linq (example_libs (tagged 4 ''x'')) memory_ops
            (tagged_query\<lparr>count_only := True, order_by_fields := [], skip_count := 0,
                            take_count := None, select_fields := None,
                            distinct_flag := False\<rparr>) tagged_state)
     = Inr (Count 5)"
proof -
  let ?L = "example_libs (tagged 4 ''x'')"
  let ?b = "tagged_query"
  let ?c = "tagged_query\<lparr>count_only := True\<rparr>"
  let ?raws = "[tagged 1 ''w'', tagged 2 ''y'', tagged 3 ''y'', tagged_stub, tagged 5 ''z'',
         tagged 6 ''q'']"
  let ?hyd = "[tagged 1 ''w'', tagged 2 ''y'', tagged 3 ''y'', tagged 4 ''x'', tagged 5 ''z'',
         tagged 6 ''q'']"
  let ?flt = "[tagged 1 ''w'', tagged 2 ''y'', tagged 3 ''y'', tagged 4 ''x'', tagged 6 ''q'']"
  let ?ord = "[tagged 6 ''q'', tagged 4 ''x'', tagged 3 ''y'', tagged 2 ''y'', tagged 1 ''w'']"
  let ?page = "[tagged 4 ''x'', tagged 3 ''y'', tagged 2 ''y'']"
  let ?proj = "[[(''tag'', PStr ''x'')], [(''tag'', PStr ''y'')], [(''tag'', PStr ''y'')]]"
  let ?out = "[[(''tag'', PStr ''x'')], [(''tag'', PStr ''y'')]]"
  have raw: "fst (query_raw memory_ops [] None (provider tagged_state)) = Inr ?raws"
    by (simp add: memory_ops_def tagged_state_def)
  have hyd: "fst (retrieve_all ?L ?raws (object_store tagged_state)) = Inr ?hyd"
    by (simp add: linq_example_eval)
  have flt: "apply_filters ?hyd ?b = Inr ?flt" "apply_filters ?hyd ?c = Inr ?flt"
    by (simp_all add: linq_example_eval)
  have ord: "apply_ordering ?flt ?b = Inr ?ord"
    by (simp add: linq_example_eval)
  have pag: "apply_pagination ?ord ?b = ?page"
    by (simp add: linq_example_eval)
  have prj: "apply_projection ?page ?b = ?proj"
    by (simp add: linq_example_eval)
  have dst: "apply_distinct ?L ?proj ?b = ?out"
    by (simp add: linq_example_eval)
  have flags: "count_only ?b = False" "count_only ?c = True" "skip_count ?b = 1"
    "take_count ?b = Some 3" "select_fields ?b = Some [''tag'']" "distinct_flag ?b = True"
    by (simp_all add: tagged_query_def)
  note rows = query_linq_resolves_then_stages
    [where L = ?L and ops = memory_ops and b = ?b and st = tagged_state and raws = ?raws
       and hydrated = ?hyd and filtered = ?flt and ordered = ?ord and page = ?page
       and projected = ?proj]
  note cnt = query_linq_resolves_then_stages
    [where L = ?L and ops = memory_ops and b = ?c and st = tagged_state and raws = ?raws
       and hydrated = ?hyd and filtered = ?flt and ordered = ?ord and page = ?page
       and projected = ?proj]
  have 1: "fst (query_linq ?L memory_ops ?b tagged_state) = Inr (Rows ?out)"
    by (subst conjunct1 [OF rows])
       (simp only: raw hyd flt ord pag prj dst flags sum.case if_False)
  have 2: "fst (query_linq ?L memory_ops ?c tagged_state) = Inr (Count 5)"
    by (subst conjunct1 [OF cnt]) (simp only: raw hyd flt flags sum.case if_True, simp)
  note r2 = conjunct2 [OF rows]
  note r3 = conjunct2 [OF r2]
  note r4 = conjunct2 [OF r3]
  note r5 = conjunct2 [OF r4]
  note r6 = conjunct2 [OF r5]
  have 3: "list_all2 (resolves ?L (object_store tagged_state)) ?raws ?hyd"
    using conjunct1 [OF r2] hyd by (rule mp)
  have "?flt = filter (spec_record_matches (filters ?b)) ?hyd"
    using conjunct1 [OF r3] flt(1) by (rule mp)
  then have 4: "filter (spec_record_matches (filters ?b)) ?hyd = ?flt"
    by (rule sym)
  have "apply_pagination ?ord ?b = spec_slice 1 4 ?ord"
    using conjunct1 [OF r5] by (simp add: flags)
  then have 5: "spec_slice 1 4 ?ord = ?page"
    unfolding pag by (rule sym)
  have "apply_projection ?page ?b = map (spec_project [''tag'']) ?page"
    using conjunct1 [OF r6] by (simp add: flags)
  then have 6: "map (spec_project [''tag'']) ?page = ?proj"
    unfolding prj by (rule sym)
  have "apply_distinct ?L ?proj ?b = spec_first_seen (json_dumps_sorted ?L) ?proj"
    using conjunct1 [OF conjunct2 [OF r6]] by (simp add: flags)
  then have 7: "spec_first_seen (json_dumps_sorted ?L) ?proj = ?out"
    unfolding dst by (rule sym)
  have 8: "mset ?ord = mset ?flt"
    using conjunct1 [OF r4] ord by (rule mp)
  note plain = query_linq_resolves_then_stages
    [where L = ?L and ops = memory_ops and b = ?c and st = tagged_state and raws = ?raws
       and hydrated = ?hyd and filtered = ?flt and ordered = ?ord and page = ?page
       and projected = ?proj and ob = "[]" and sk = 0 and tk = None and sf = None
       and df = False]
  note c7 = conjunct2 [OF conjunct2 [OF conjunct2 [OF conjunct2 [OF conjunct2
              [OF conjunct2 [OF conjunct2 [OF plain]]]]]]]
  have "fst (query_linq ?L memory_ops ?c tagged_state)
      = fst (query_linq ?L memory_ops
               (?c\<lparr>order_by_fields := [], skip_count := 0, take_count := None,
                    select_fields := None, distinct_flag := False\<rparr>) tagged_state)"
    using c7 by (simp add: flags)
  with 2 have 9: "fst (query_linq ?L memory_ops
               (?c\<lparr>order_by_fields := [], skip_count := 0, take_count := None,
                    select_fields := None, distinct_flag := False\<rparr>) tagged_state)
      = Inr (Count 5)"
    by simp
  from 1 2 3 4 ord 5 6 7 8 9 show ?thesis by blast
qed

section \<open>Paged reads\<close>

text \<open>\<^verbatim>\<open>int(str(i))\<close> is \<open>i\<close>: a token that a paged read returns is read back as its offset.\<close>

lemma digit_char_props:
  assumes "d < 10"
  shows "is_digit (digit_char d)" and "digit_val (digit_char d) = d"
proof -
  from assms have "d \<in> {0, 1, 2, 3, 4, 5, 6, 7, 8, 9}" by auto
  then show "is_digit (digit_char d)" and "digit_val (digit_char d) = d"
    by (auto simp: digit_char_def is_digit_def digit_val_def)
qed

lemma is_digit_not_special:
  assumes "is_digit c"
  shows "\<not> is_py_space c" and "c \<noteq> CHR ''-''" and "c \<noteq> CHR ''+''"
  using assms by (auto simp: is_digit_def is_py_space_def Let_def)

lemma minus_not_space: "\<not> is_py_space CHR ''-''"
  by (simp add: is_py_space_def)

lemma str_of_nat_digits: "list_all is_digit (str_of_nat n) \<and> str_of_nat n \<noteq> []"
proof (induction n rule: str_of_nat.induct)
  case (1 n)
  show ?case
  proof (cases "n < 10")
    case True
    then show ?thesis by (subst (1 2) str_of_nat.simps) (simp add: digit_char_props)
  next
    case False
    with 1 show ?thesis by (subst (1 2) str_of_nat.simps) (simp add: digit_char_props)
  qed
qed

lemma digits_value_snoc:
  "is_digit c \<Longrightarrow> list_all is_digit ds \<Longrightarrow>
   digits_value (ds @ [c]) = 10 * digits_value ds + digit_val c"
  by (simp add: digits_value_def)

lemma digits_value_str_of_nat: "digits_value (str_of_nat n) = n"
proof (induction n rule: str_of_nat.induct)
  case (1 n)
  show ?case
  proof (cases "n < 10")
    case True
    then show ?thesis
      by (subst str_of_nat.simps) (simp add: digits_value_def digit_char_props)
  next
    case False
    have d: "is_digit (digit_char (n mod 10))" "digit_val (digit_char (n mod 10)) = n mod 10"
      by (simp_all add: digit_char_props)
    have "digits_value (str_of_nat (n div 10) @ [digit_char (n mod 10)])
        = 10 * digits_value (str_of_nat (n div 10)) + digit_val (digit_char (n mod 10))"
      using d(1) str_of_nat_digits by (intro digits_value_snoc) simp_all
    also have "\<dots> = 10 * (n div 10) + n mod 10"
      using 1 False d(2) by simp
    also have "\<dots> = n" by simp
    finally show ?thesis using False by (subst str_of_nat.simps) simp
  qed
qed

lemma digits_ok_all: "list_all is_digit ds \<Longrightarrow> ds \<noteq> [] \<Longrightarrow> digits_ok p ds"
proof (induction ds arbitrary: p)
  case Nil
  then show ?case by simp
next
  case (Cons c cs)
  then show ?case by (cases cs) auto
qed

lemma dropWhile_hd: "xs \<noteq> [] \<Longrightarrow> \<not> P (hd xs) \<Longrightarrow> dropWhile P xs = xs"
  by (cases xs) simp_all

lemma strip_id:
  assumes "s \<noteq> []" and "\<not> is_py_space (hd s)" and "\<not> is_py_space (last s)"
  shows "strip s = s"
proof -
  have a: "dropWhile is_py_space s = s"
    using assms(1,2) by (rule dropWhile_hd)
  have "rev s \<noteq> []" "\<not> is_py_space (hd (rev s))"
    using assms(1,3) by (simp_all add: hd_rev)
  then have b: "dropWhile is_py_space (rev s) = rev s"
    by (rule dropWhile_hd)
  show ?thesis by (simp add: strip_def a b)
qed

lemma py_int_digits:
  assumes "list_all is_digit ds" and "ds \<noteq> []"
  shows "py_int ds = Inr (int (digits_value ds))"
    and "py_int (CHR ''-'' # ds) = Inr (- int (digits_value ds))"
proof -
  obtain c cs where cons: "ds = c # cs" using assms(2) by (cases ds) auto
  have c: "is_digit c" using assms(1) cons by simp
  have l: "is_digit (last ds)"
    using assms by (metis last_in_set list_all_iff)
  have ok: "digits_ok False ds" using assms by (rule digits_ok_all)
  have st: "strip ds = ds"
    using assms(2) l c cons by (intro strip_id) (simp_all add: is_digit_not_special)
  have neg: "(case ds of c # r \<Rightarrow> c = CHR ''-'' | [] \<Rightarrow> False) = False"
    using cons c by (simp add: is_digit_not_special)
  have body: "(case ds of c # r \<Rightarrow> if c = CHR ''-'' \<or> c = CHR ''+'' then r else ds | [] \<Rightarrow> []) = ds"
    using cons c by (simp add: is_digit_not_special)
  show "py_int ds = Inr (int (digits_value ds))"
    unfolding py_int_def Let_def st neg body using ok by simp
  have st': "strip (CHR ''-'' # ds) = CHR ''-'' # ds"
    using assms(2) l by (intro strip_id) (simp_all add: minus_not_space is_digit_not_special)
  show "py_int (CHR ''-'' # ds) = Inr (- int (digits_value ds))"
    unfolding py_int_def Let_def st' using ok by simp
qed

lemma py_int_str_of_int: "py_int (str_of_int i) = Inr i"
proof (cases "i < 0")
  case True
  have "py_int (CHR ''-'' # str_of_nat (nat (- i))) = Inr (- int (digits_value (str_of_nat (nat (- i)))))"
    using str_of_nat_digits by (intro py_int_digits) blast+
  with True show ?thesis by (simp add: str_of_int_def digits_value_str_of_nat)
next
  case False
  have "py_int (str_of_nat (nat i)) = Inr (int (digits_value (str_of_nat (nat i))))"
    using str_of_nat_digits by (intro py_int_digits) blast+
  with False show ?thesis by (simp add: str_of_int_def digits_value_str_of_nat)
qed

lemma str_of_int_nonempty: "str_of_int i \<noteq> []"
  using str_of_nat_digits by (simp add: str_of_int_def)

lemma token_offset_str_of_int: "token_offset (Some (str_of_int i)) = Inr i"
  by (simp add: token_offset_def str_of_int_nonempty py_int_str_of_int)


text \<open>The first page and the page after it on the relational adapter.\<close>

lemma pg_select_valid:
  assumes "validate_table_name t = Inr t" and "validate_column_names (map fst q) = Inr ()"
    and "0 < limit" and "limit \<le> pg_bigint_max" and "0 \<le> offset" and "offset \<le> pg_bigint_max"
  shows "pg_select db t (Some q) (Some limit) (Some offset)
       = Inr (take (nat limit) (drop (nat offset) (db t q)))"
  using assms by (simp add: pg_select_def pg_count_ok_def opt_list_def truthy_int_def Let_def)

lemma select_page_first:
  assumes "validate_table_name t = Inr t" and "validate_column_names (map fst q) = Inr ()"
    and "1 \<le> P" and "P < int (length (db t q))" and "P < pg_bigint_max"
  shows "select_page db t q P None = Inr (take (nat P) (db t q), Some (str_of_int P))"
proof -
  have sel: "pg_select db t (Some q) (Some (P + 1)) (Some 0)
      = Inr (take (nat (P + 1)) (drop (nat 0) (db t q)))"
    using assms by (intro pg_select_valid) (simp_all add: pg_bigint_max_def)
  have len: "int (length (take (nat (P + 1)) (db t q))) > P"
    using assms(3,4) by simp
  have "take (nat P) (take (nat (P + 1)) (db t q)) = take (nat P) (db t q)"
    using assms(3) by (simp add: min_def)
  with len assms(3) have "page_of 0 P (take (nat (P + 1)) (db t q))
      = (take (nat P) (db t q), Some (str_of_int P))"
    by (simp add: page_of_def slice_to_def Let_def)
  with sel show ?thesis
    by (simp add: select_page_def token_offset_def)
qed

lemma select_page_resume:
  assumes "validate_table_name t = Inr t" and "validate_column_names (map fst q) = Inr ()"
    and "1 \<le> P" and "P < int (length (db t q))" and "P < pg_bigint_max"
  shows "select_page db t q P (Some (str_of_int P))
       = Inr (take (nat P) (drop (nat P) (db t q)),
              if int (length (db t q)) - P \<le> P then None else Some (str_of_int (2 * P)))"
proof -
  let ?rest = "drop (nat P) (db t q)"
  have sel: "pg_select db t (Some q) (Some (P + 1)) (Some P) = Inr (take (nat (P + 1)) ?rest)"
    using assms by (intro pg_select_valid) simp_all
  have "page_of P P (take (nat (P + 1)) ?rest)
      = (take (nat P) ?rest,
         if int (length (db t q)) - P \<le> P then None else Some (str_of_int (2 * P)))"
  proof (cases "int (length (db t q)) - P \<le> P")
    case True
    then have short: "length ?rest \<le> nat P" using assms(3) by simp
    then have "take (nat (P + 1)) ?rest = ?rest" "take (nat P) ?rest = ?rest"
      using assms(3) by simp_all
    moreover have "\<not> int (length ?rest) > P" using short assms(3) by simp
    ultimately show ?thesis using True by (simp add: page_of_def Let_def)
  next
    case False
    then have "int (length (take (nat (P + 1)) ?rest)) > P" using assms(3) by simp
    moreover have "take (nat P) (take (nat (P + 1)) ?rest) = take (nat P) ?rest"
      using assms(3) by (simp add: min_def)
    ultimately show ?thesis using False assms(3)
      by (simp add: page_of_def slice_to_def Let_def)
  qed
  with sel show ?thesis
    by (simp add: select_page_def token_offset_str_of_int)
qed

lemma decrypt_rows_length: "decrypt_rows F meta xs = Inr ys \<Longrightarrow> length ys = length xs"
  by (induction xs arbitrary: ys) (auto split: sum.splits)

lemma post_rows_length: "post_rows F ctx meta xs = Inr page \<Longrightarrow> length page = length xs"
  by (auto simp: post_rows_def split: sum.splits dest: decrypt_rows_length)

text \<open>
  The relational path. For a model stored in a relational table, a dataset of \<open>N\<close> rows
  and a page size \<open>P\<close> with \<open>1 \<le> P < N\<close>: \<^verbatim>\<open>read_page\<close> returns the first \<open>P\<close> rows with
  the token \<^verbatim>\<open>str(P)\<close>, and a second call with that token returns the next
  \<open>min(P, N - P)\<close> rows, which are the rows after the first page, with a null token
  exactly when \<open>N - P \<le> P\<close> (the token \<^verbatim>\<open>str(2P)\<close> otherwise). Rows are returned after
  decryption and masking, which keep their number.
\<close>

theorem read_page_resumes_by_offset:
  assumes "uses_sql meta"
    and "validate_table_name (table_name meta) = Inr (table_name meta)"
    and "read_query F ctx (Some q) incl = Inr q'"
    and "validate_column_names (map fst q') = Inr ()"
    and "rows = db (table_name meta) q'"
    and "1 \<le> P" and "P < int (length rows)" and "P < pg_bigint_max"
    and "B = repo_backends db L ops st w"
  shows "read_page F B ctx meta q P None incl =
           (case post_rows F ctx meta (take (nat P) rows) of
              Inl e \<Rightarrow> Inl e
            | Inr page \<Rightarrow> Inr (page, Some (str_of_int P)))
       \<and> read_page F B ctx meta q P (Some (str_of_int P)) incl =
           (case post_rows F ctx meta (take (nat P) (drop (nat P) rows)) of
              Inl e \<Rightarrow> Inl e
            | Inr page \<Rightarrow>
                Inr (page, if int (length rows) - P \<le> P then None
                           else Some (str_of_int (2 * P))))
       \<and> (read_page F B ctx meta q P None incl = Inr (page1, token1) \<longrightarrow>
            length page1 = nat P \<and> token1 = Some (str_of_int P))
       \<and> (read_page F B ctx meta q P (Some (str_of_int P)) incl = Inr (page2, token2) \<longrightarrow>
            length page2 = min (nat P) (length rows - nat P)
            \<and> (token2 = None) = (int (length rows) - P \<le> P))"
proof -
  have first: "sql_select_page B (table_name meta) q' P None
      = Inr (take (nat P) rows, Some (str_of_int P))"
    using assms by (simp add: repo_backends_def select_page_first)
  have resume: "sql_select_page B (table_name meta) q' P (Some (str_of_int P))
      = Inr (take (nat P) (drop (nat P) rows),
             if int (length rows) - P \<le> P then None else Some (str_of_int (2 * P)))"
    using assms by (simp add: repo_backends_def select_page_resume)
  have p1: "read_page F B ctx meta q P None incl =
           (case post_rows F ctx meta (take (nat P) rows) of
              Inl e \<Rightarrow> Inl e
            | Inr page \<Rightarrow> Inr (page, Some (str_of_int P)))"
    using assms(1,3) first by (simp add: read_page_def)
  have p2: "read_page F B ctx meta q P (Some (str_of_int P)) incl =
           (case post_rows F ctx meta (take (nat P) (drop (nat P) rows)) of
              Inl e \<Rightarrow> Inl e
            | Inr page \<Rightarrow>
                Inr (page, if int (length rows) - P \<le> P then None
                           else Some (str_of_int (2 * P))))"
    using assms(1,3) resume by (simp add: read_page_def)
  have l1: "length page1 = nat P \<and> token1 = Some (str_of_int P)"
    if "read_page F B ctx meta q P None incl = Inr (page1, token1)"
    using that assms(6,7) unfolding p1
    by (auto split: sum.splits dest!: post_rows_length)
  have l2: "length page2 = min (nat P) (length rows - nat P)
            \<and> (token2 = None) = (int (length rows) - P \<le> P)"
    if "read_page F B ctx meta q P (Some (str_of_int P)) incl = Inr (page2, token2)"
    using that assms(6,7) unfolding p2
    by (auto split: sum.splits if_splits dest!: post_rows_length)
  from p1 p2 l1 l2 show ?thesis by blast
qed

text \<open>
  The key-value path. \<^verbatim>\<open>query_page\<close> computes the offset from the token but fetches
  without it, so every token gives the rows of the first page again, and a first page
  that came with a token comes with a token every time.
\<close>

lemma query_page_ignores_token:
  assumes "token_offset t1 = Inr o1" and "token_offset t2 = Inr o2"
  shows "map_sum id fst (fst (query_page L ops q P t1 st))
       = map_sum id fst (fst (query_page L ops q P t2 st))"
  using assms
  by (auto simp: query_page_def page_of_def Let_def split: prod.splits sum.splits)

lemma page_of_more:
  "page_of off P results = (page, Some tok) \<Longrightarrow>
   tok = str_of_int (off + P) \<and> page_of off' P results = (page, Some (str_of_int (off' + P)))"
  by (auto simp: page_of_def Let_def split: if_splits)

lemma query_page_repeats:
  assumes "fst (query_page L ops q P None st) = Inr (page, Some tok)"
  shows "tok = str_of_int P
       \<and> fst (query_page L ops q P (Some tok) st) = Inr (page, Some (str_of_int (2 * P)))"
proof -
  obtain res st' where qr: "query L ops (Some q) (Some (P + 1)) st = (res, st')"
    by (cases "query L ops (Some q) (Some (P + 1)) st")
  from assms qr obtain results where res: "res = Inr results"
    and pg: "page_of 0 P results = (page, Some tok)"
    by (auto simp: query_page_def token_offset_def split: sum.splits)
  from page_of_more [OF pg, of P] have tok: "tok = str_of_int P"
    and again: "page_of P P results = (page, Some (str_of_int (P + P)))" by simp_all
  have "fst (query_page L ops q P (Some (str_of_int P)) st) = Inr (page, Some (str_of_int (2 * P)))"
    using qr res again by (simp add: query_page_def token_offset_str_of_int)
  with tok show ?thesis by simp
qed

text \<open>
  C7. The code diverges from the claim on every model kept in the key-value store:
  whenever the first call of \<^verbatim>\<open>read_page\<close> returns a page with a continuation token
  (as it does over \<open>N > P\<close> records), the token is \<^verbatim>\<open>str(P)\<close> and the call resumed with
  it returns the same page again, not the remaining rows, with the token \<^verbatim>\<open>str(2P)\<close>,
  not a null token.
\<close>

theorem key_value_read_page_repeats_first_page:
  assumes "\<not> uses_sql meta"
    and "B = repo_backends db L ops st w"
    and "read_page F B ctx meta q P None incl = Inr (page1, Some token1)"
  shows "token1 = str_of_int P
       \<and> read_page F B ctx meta q P (Some token1) incl = Inr (page1, Some (str_of_int (2 * P)))"
proof -
  from assms(3) obtain q' where rq: "read_query F ctx (Some q) incl = Inr q'"
    by (auto simp: read_page_def split: sum.splits)
  from assms rq obtain raw1 where
    first: "fst (query_page L ops q' P None st) = Inr (raw1, Some token1)"
    and post: "post_rows F ctx meta raw1 = Inr page1"
    by (auto simp: read_page_def repo_backends_def split: sum.splits prod.splits)
  note rep = query_page_repeats [OF first]
  have tok: "token1 = str_of_int P" by (rule conjunct1 [OF rep])
  have again: "fst (query_page L ops q' P (Some token1) st)
                  = Inr (raw1, Some (str_of_int (2 * P)))" by (rule conjunct2 [OF rep])
  have "read_page F B ctx meta q P (Some token1) incl = Inr (page1, Some (str_of_int (2 * P)))"
    using assms(1,2) rq again post by (simp add: read_page_def repo_backends_def)
  with tok show ?thesis by simp
qed


text \<open>The definitions that evaluate masking and the example database.\<close>

lemmas masking_eval =
  mask_record_def mask_field_def infer_mask_type_def get_masker_def apply_context_masking_def
  restrict_field_def encrypted_fields_def

lemmas database_eval =
  pg_count_ok_def pg_bigint_max_def sql_condition_def sql_equal_def

text \<open>The definitions that evaluate a paged read on the example inputs.\<close>

lemmas read_page_eval =
  masking_eval database_eval
  read_page_def read_query_def apply_soft_delete_filter_def plain_factory_def no_context_def
  sql_meta_def uses_sql_def table_name_def example_backends_def repo_backends_def
  select_page_def token_offset_def pg_select_def validate_table_name_def
  validate_column_name_def re_match_class_plus_def is_alnum_underscore_hyphen_def
  is_alnum_underscore_def opt_list_def truthy_int_def three_rows_def page_of_def slice_to_def
  post_rows_def decrypt_row_def current_tenant_id_def truthy_str_def str_of_int_def
  str_of_nat.simps digit_char_def py_int_def strip_def is_py_space_def is_digit_def
  digit_val_def digits_value_def Let_def

text \<open>
  The theorem over three records in the key-value store with page size two: the call
  resumed with the token \<open>2\<close> returns the first two records again and the token \<open>4\<close>,
  where the claim has the third record and a null token.
\<close>

lemmas kv_page_eval =
  kv_meta_def kv_backends_def three_rows_state_def query_page_def query_def memory_ops_def
  empty_store_def retrieve_overflow_def retry_def retry_loop.simps retrieve_overflow_body_def
  returned_def dict_get_def

theorem key_value_read_page_repeats_first_page_witness:
  "read_page plain_factory kv_backends no_context kv_meta [] 2 None False
     = Inr ([[(''id'', PInt 1)], [(''id'', PInt 2)]], Some ''2'')
   \<and> read_page plain_factory kv_backends no_context kv_meta [] 2 (Some ''2'') False
     = Inr ([[(''id'', PInt 1)], [(''id'', PInt 2)]], Some ''4'')"
proof -
  have a1: "\<not> uses_sql kv_meta" by (simp add: uses_sql_def kv_meta_def)
  have a2: "kv_backends
      = repo_backends three_rows (example_libs []) memory_ops three_rows_state (\<lambda>w. Inr [])"
    by (simp add: kv_backends_def)
  have a3: "read_page plain_factory kv_backends no_context kv_meta [] 2 None False
     = Inr ([[(''id'', PInt 1)], [(''id'', PInt 2)]], Some ''2'')"
    by (simp add: kv_page_eval read_page_eval)
  have tok: "str_of_int (2 * 2) = ''4''"
    by (simp add: str_of_int_def str_of_nat.simps digit_char_def)
  note inst = key_value_read_page_repeats_first_page [OF a1 a2 a3]
  have "read_page plain_factory kv_backends no_context kv_meta [] 2 (Some ''2'') False
     = Inr ([[(''id'', PInt 1)], [(''id'', PInt 2)]], Some ''4'')"
    using conjunct2 [OF inst] unfolding tok by simp
  with a3 show ?thesis by simp
qed

text \<open>
  On the relational path the resumed call returns the next page only: over three rows
  with page size one it returns one row, not the two remaining rows, and its token is
  not null.
\<close>

theorem remaining_rows_counterexample:
  "read_page plain_factory example_backends no_context sql_meta [] 1 None False
     = Inr ([[(''id'', PInt 1)]], Some ''1'')
   \<and> read_page plain_factory example_backends no_context sql_meta [] 1 (Some ''1'') False
     = Inr ([[(''id'', PInt 2)]], Some ''2'')"
  by (simp add: read_page_eval)

text \<open>The relational path over the same three rows with page size two.\<close>

theorem read_page_resumes_by_offset_witness:
  "read_page plain_factory example_backends no_context sql_meta [] 2 None False
     = Inr ([[(''id'', PInt 1)], [(''id'', PInt 2)]], Some ''2'')
   \<and> read_page plain_factory example_backends no_context sql_meta [] 2 (Some ''2'') False
     = Inr ([[(''id'', PInt 3)]], None)"
proof -
  let ?rows = "[[(''id'', PInt 1)], [(''id'', PInt 2)], [(''id'', PInt 3)]]"
  have a1: "uses_sql sql_meta" by (simp add: uses_sql_def sql_meta_def)
  have a2: "validate_table_name (table_name sql_meta) = Inr (table_name sql_meta)"
    by (simp add: read_page_eval)
  have a3: "read_query plain_factory no_context (Some []) False = Inr []"
    by (simp add: read_page_eval)
  have a4: "validate_column_names (map fst ([] :: Lookup)) = Inr ()" by simp
  have a5: "?rows = three_rows (table_name sql_meta) []" by (simp add: three_rows_def)
  have a6: "(1::int) \<le> 2" and a7: "(2::int) < int (length ?rows)"
    and a7': "(2::int) < pg_bigint_max" by (simp_all add: pg_bigint_max_def)
  have a8: "example_backends
      = repo_backends three_rows (example_libs []) memory_ops empty_kv_state (\<lambda>w. Inr [])"
    by (simp add: example_backends_def)
  have tok: "str_of_int 2 = ''2''"
    by (simp add: str_of_int_def str_of_nat.simps digit_char_def)
  have post: "post_rows plain_factory no_context sql_meta (take (nat 2) ?rows)
        = Inr [[(''id'', PInt 1)], [(''id'', PInt 2)]]"
    "post_rows plain_factory no_context sql_meta (take (nat 2) (drop (nat 2) ?rows)) = Inr [[(''id'', PInt 3)]]"
    by (simp_all add: post_rows_def decrypt_row_def plain_factory_def no_context_def
        masking_eval truthy_str_def)
  note inst = read_page_resumes_by_offset [OF a1 a2 a3 a4 a5 a6 a7 a7' a8]
  have "read_page plain_factory example_backends no_context sql_meta [] 2 None False
     = Inr ([[(''id'', PInt 1)], [(''id'', PInt 2)]], Some ''2'')"
    by (subst conjunct1 [OF inst]) (simp only: post tok sum.case)
  moreover have "read_page plain_factory example_backends no_context sql_meta [] 2 (Some ''2'') False
     = Inr ([[(''id'', PInt 3)]], None)"
    using conjunct1 [OF conjunct2 [OF inst]] unfolding tok post by simp
  ultimately show ?thesis by simp
qed

section \<open>Reads with \<^verbatim>\<open>include_deleted\<close>\<close>

text \<open>The keys of a dictionary after an update.\<close>

lemma keys_dict_set: "fst ` set (dict_set k v d) = insert k (fst ` set d)"
proof (induction d)
  case Nil
  show ?case by simp
next
  case (Cons p d)
  obtain k' v' where p: "p = (k', v')" by (cases p)
  show ?case
    by (cases "k' = k") (simp_all add: p Cons.IH insert_commute)
qed

lemma keys_dict_setdefault: "fst ` set (dict_setdefault k v d) \<subseteq> insert k (fst ` set d)"
  by (simp add: dict_setdefault_def subset_insertI)

lemma keys_add_missing: "fst ` set (add_missing extra d) \<subseteq> fst ` set extra \<union> fst ` set d"
proof (induction extra d rule: add_missing.induct)
  case (1 d)
  then show ?case by simp
next
  case (2 k v extra d)
  have "fst ` set (dict_setdefault k v d) \<subseteq> insert k (fst ` set d)"
    by (rule keys_dict_setdefault)
  moreover have "fst ` set (add_missing extra (dict_setdefault k v d))
      \<subseteq> fst ` set extra \<union> fst ` set (dict_setdefault k v d)"
    by (rule "2.IH")
  ultimately show ?case by (simp add: subset_iff) blast
qed

text \<open>Where the keys of a filter rebuilt from \<^verbatim>\<open>None\<close> come from.\<close>

lemma read_query_keys:
  assumes "read_query F ctx None True = Inr q'" and "k \<in> fst ` set q'"
  shows "(k = ''deleted_at'' \<and> soft_delete F) \<or> k = ''tenant_id''
       \<or> (\<exists>r. rls F = Some r \<and> k \<in> fst ` set (opt_list (read_filters r)))"
proof -
  let ?q0 = "apply_soft_delete_filter F None"
  have k0: "fst ` set ?q0 \<subseteq> (if soft_delete F then {''deleted_at''} else {})"
    by (auto simp: apply_soft_delete_filter_def opt_list_def dict_setdefault_def)
  obtain q1 where q1: "(if tenant_enforcer F then tenant_enforce_read ctx ?q0 else Inr ?q0) = Inr q1"
    using assms(1) by (auto simp: read_query_def Let_def split: sum.splits)
  have "q1 = ?q0 \<or> (\<exists>v. q1 = dict_set ''tenant_id'' v ?q0)"
    using q1 by (auto simp: tenant_enforce_read_def split: if_splits option.splits)
  then have k1: "fst ` set q1 \<subseteq> insert ''tenant_id'' (fst ` set ?q0)"
  proof (elim disjE exE)
    assume "q1 = ?q0"
    then show ?thesis by auto
  next
    fix v assume "q1 = dict_set ''tenant_id'' v ?q0"
    then have "fst ` set q1 = insert ''tenant_id'' (fst ` set ?q0)"
      by (simp add: keys_dict_set)
    then show ?thesis by simp
  qed
  let ?q2 = "case rls F of Some r \<Rightarrow> rls_enforce_read r q1 | None \<Rightarrow> q1"
  have k2: "fst ` set ?q2 \<subseteq> fst ` set q1
      \<union> (case rls F of Some r \<Rightarrow> fst ` set (opt_list (read_filters r)) | None \<Rightarrow> {})"
  proof (cases "rls F")
    case None
    then show ?thesis by simp
  next
    case (Some r)
    then show ?thesis
      using keys_add_missing [of "opt_list (read_filters r)" q1]
      by (simp add: rls_enforce_read_def Un_commute)
  qed
  have "q' = ?q2 \<or> (\<exists>v. q' = dict_setdefault ''tenant_id'' v ?q2)"
    using assms(1) q1 by (auto simp: read_query_def Let_def split: option.splits)
  then have k3: "fst ` set q' \<subseteq> insert ''tenant_id'' (fst ` set ?q2)"
    using keys_dict_setdefault [of "''tenant_id''" _ ?q2] by (elim disjE exE) auto
  from assms(2) k3 have "k = ''tenant_id'' \<or> k \<in> fst ` set ?q2" by blast
  then show ?thesis
  proof
    assume "k = ''tenant_id''" then show ?thesis by simp
  next
    assume "k \<in> fst ` set ?q2"
    with k2 have "k \<in> fst ` set q1
        \<or> k \<in> (case rls F of Some r \<Rightarrow> fst ` set (opt_list (read_filters r)) | None \<Rightarrow> {})"
      by blast
    then show ?thesis
    proof
      assume "k \<in> fst ` set q1"
      with k1 have "k = ''tenant_id'' \<or> k \<in> fst ` set ?q0" by blast
      with k0 show ?thesis by (cases "soft_delete F") auto
    next
      assume "k \<in> (case rls F of Some r \<Rightarrow> fst ` set (opt_list (read_filters r)) | None \<Rightarrow> {})"
      then show ?thesis by (cases "rls F") simp_all
    qed
  qed
qed

text \<open>
  C10 (as amended). With \<^verbatim>\<open>include_deleted=True\<close> the caller's query does not reach
  storage: the filter that \<^verbatim>\<open>read\<close> (and so \<^verbatim>\<open>read_one\<close>) dispatches is the one rebuilt
  from \<^verbatim>\<open>None\<close>, whose keys are only the soft-delete default \<^verbatim>\<open>deleted_at\<close> (when soft
  delete is enabled), \<^verbatim>\<open>tenant_id\<close> and the keys of the model's row-level-security read
  filters. So \<^verbatim>\<open>_fetch_before\<close>, which reads with \<^verbatim>\<open>include_deleted=True\<close>, fetches the
  same row for every entity reference: the first row of the read with an empty query.
\<close>

theorem include_deleted_discards_query:
  "read_query F ctx (Some q) True = read_query F ctx None True
   \<and> read F B ctx meta (Some q) limit offset True = read F B ctx meta None limit offset True
   \<and> fetch_before F B ctx meta entity_id = read_one F B ctx meta [] True
   \<and> (read_query F ctx (Some q) True = Inr q' \<longrightarrow>
        (\<forall>k \<in> fst ` set q'.
           (k = ''deleted_at'' \<and> soft_delete F) \<or> k = ''tenant_id''
           \<or> (\<exists>r. rls F = Some r \<and> k \<in> fst ` set (opt_list (read_filters r)))))"
proof (intro conjI impI ballI)
  show q: "read_query F ctx (Some q) True = read_query F ctx None True"
    by (simp add: read_query_def)
  show "read F B ctx meta (Some q) limit offset True = read F B ctx meta None limit offset True"
    by (simp add: read_def read_query_def)
  show "fetch_before F B ctx meta entity_id = read_one F B ctx meta [] True"
    by (simp add: fetch_before_def read_one_def read_def read_query_def Let_def)
  fix k
  assume a: "read_query F ctx (Some q) True = Inr q'" and k: "k \<in> fst ` set q'"
  from a q have "read_query F ctx None True = Inr q'" by simp
  then show "(k = ''deleted_at'' \<and> soft_delete F) \<or> k = ''tenant_id''
       \<or> (\<exists>r. rls F = Some r \<and> k \<in> fst ` set (opt_list (read_filters r)))"
    using k by (rule read_query_keys)
qed

text \<open>The definitions that evaluate a read on the example inputs.\<close>

lemmas read_eval =
  masking_eval database_eval
  read_query_def apply_soft_delete_filter_def plain_factory_def soft_delete_factory_def
  no_context_def tenant_context_def sql_meta_def uses_sql_def table_name_def
  example_backends_def repo_backends_def pg_select_def validate_table_name_def
  validate_column_name_def re_match_class_plus_def is_alnum_underscore_hyphen_def
  is_alnum_underscore_def opt_list_def truthy_int_def three_rows_def post_rows_def
  decrypt_row_def current_tenant_id_def truthy_str_def dict_setdefault_def
  read_def read_one_def fetch_before_def operand_eq_def dict_get_def py_eq_def Let_def

text \<open>
  C10 as stated fails: with soft delete enabled, no tenant and no row-level security,
  the rebuilt filter still holds \<^verbatim>\<open>deleted_at\<close>, which is neither a tenant nor a
  row-level-security filter.
\<close>

theorem only_tenant_rls_counterexample:
  "read_query soft_delete_factory no_context (Some [(''id'', Scalar (PInt 3))]) True
     = Inr [(''deleted_at'', Scalar PNone)]
   \<and> rls soft_delete_factory = None
   \<and> \<not> tenant_enforcer soft_delete_factory
   \<and> current_tenant_id no_context = None"
  by (simp add: read_eval)

text \<open>
  The theorem at a lookup for the record with identifier 3: the filter is rebuilt
  without the identifier, and the before-snapshot is the record with identifier 1; an
  ordinary read with the same lookup finds the record with identifier 3.
\<close>

theorem include_deleted_discards_query_witness:
  "read_query soft_delete_factory tenant_context (Some [(''id'', Scalar (PInt 3))]) True
     = Inr [(''deleted_at'', Scalar PNone), (''tenant_id'', Scalar (PStr ''t1''))]
   \<and> fetch_before plain_factory example_backends no_context sql_meta (ById (PInt 3))
     = Inr (Some [(''id'', PInt 1)])
   \<and> read plain_factory example_backends no_context sql_meta
        (Some [(''id'', Scalar (PInt 3))]) None None False
     = Inr [[(''id'', PInt 3)]]"
proof -
  have none: "read_query soft_delete_factory tenant_context None True
     = Inr [(''deleted_at'', Scalar PNone), (''tenant_id'', Scalar (PStr ''t1''))]"
    by (simp add: read_eval)
  have one: "read_one plain_factory example_backends no_context sql_meta [] True
     = Inr (Some [(''id'', PInt 1)])"
    by (simp add: read_eval)
  have plain: "read plain_factory example_backends no_context sql_meta
        (Some [(''id'', Scalar (PInt 3))]) None None False = Inr [[(''id'', PInt 3)]]"
    by (simp add: read_eval)
  note a = include_deleted_discards_query
    [of soft_delete_factory tenant_context "[(''id'', Scalar (PInt 3))]"]
  note b = include_deleted_discards_query
    [of plain_factory no_context _ example_backends sql_meta _ _ "ById (PInt 3)"]
  from a none have "read_query soft_delete_factory tenant_context (Some [(''id'', Scalar (PInt 3))]) True
     = Inr [(''deleted_at'', Scalar PNone), (''tenant_id'', Scalar (PStr ''t1''))]"
    by simp
  moreover from b one have "fetch_before plain_factory example_backends no_context sql_meta (ById (PInt 3))
     = Inr (Some [(''id'', PInt 1)])"
    by simp
  ultimately show ?thesis using plain by simp
qed

section \<open>Writes and the tenant\<close>

text \<open>Lookups in a dictionary after \<^verbatim>\<open>setdefault\<close> and after an assignment.\<close>

lemma map_of_dict_setdefault:
  "map_of (dict_setdefault k v d) k' =
     (if k' = k \<and> map_of d k = None then Some v else map_of d k')"
  by (auto simp add: dict_setdefault_def map_add_def split: option.splits)

lemma map_of_dict_set:
  "map_of (dict_set k v d) k' = (if k' = k then Some v else map_of d k')"
  by (induction d) auto

text \<open>The audit fields leave every other key as it is.\<close>

lemma inject_audit_fields_other:
  assumes "k \<notin> {''created_at'', ''created_by'', ''updated_at'', ''updated_by''}"
  shows "map_of (inject_audit_fields ctx now d c) k = map_of d k"
  using assms
  by (simp add: inject_audit_fields_def Let_def map_of_dict_setdefault split: option.splits)

text \<open>
  No model has encrypted fields (\<^const>\<open>encrypted_fields\<close>), so the guard of the
  encryption step is false in every write and the record passes as it is.
\<close>

lemma encrypt_record_id: "encrypt_record F meta names d = Inr d"
  by (simp add: encrypt_record_def encrypted_fields_def split: option.splits)

text \<open>What \<^verbatim>\<open>_inject_tenant\<close> leaves under \<^verbatim>\<open>tenant_id\<close>.\<close>

lemma inject_tenant_value:
  "inject_tenant ctx d = Inr d' \<Longrightarrow>
     \<exists>t. truthy_str (current_tenant_id ctx) = Some t \<and>
         map_of d' ''tenant_id'' =
           Some (case map_of d ''tenant_id'' of Some v \<Rightarrow> v | None \<Rightarrow> PStr t)"
  by (auto simp add: inject_tenant_def map_of_dict_setdefault split: option.splits)

text \<open>Without a tenant identifier \<^verbatim>\<open>create\<close> and \<^verbatim>\<open>upsert\<close> raise before any request.\<close>

lemma create_request_no_tenant:
  assumes "truthy_str (current_tenant_id ctx) = None"
  shows "\<exists>e. create_request F ctx now meta data = Inl e"
  using assms by (simp add: create_request_def inject_tenant_def split: sum.splits)

lemma upsert_request_no_tenant:
  assumes "truthy_str (current_tenant_id ctx) = None"
  shows "\<exists>e. upsert_request F ctx now meta data replace = Inl e"
  using assms by (simp add: upsert_request_def inject_tenant_def split: sum.splits)

lemma run_write_Inl: "request = Inl e \<Longrightarrow> run_write F B meta c request = Inl e"
  by (simp add: run_write_def)

lemma tenant_key_not_audit:
  "''tenant_id'' \<notin> {''created_at'', ''created_by'', ''updated_at'', ''updated_by''}"
  by simp

text \<open>The tenant identifier in the record that \<^verbatim>\<open>create\<close> and \<^verbatim>\<open>upsert\<close> write.\<close>

lemma written_tenant_value:
  assumes inj: "inject_tenant ctx d1 = Inr d2"
  shows "\<exists>t. truthy_str (current_tenant_id ctx) = Some t
           \<and> map_of (inject_audit_fields ctx now d2 True) ''tenant_id''
               = Some (case map_of d1 ''tenant_id'' of Some v \<Rightarrow> v | None \<Rightarrow> PStr t)"
proof -
  from inj obtain t where t: "truthy_str (current_tenant_id ctx) = Some t"
    and v: "map_of d2 ''tenant_id''
              = Some (case map_of d1 ''tenant_id'' of Some v \<Rightarrow> v | None \<Rightarrow> PStr t)"
    using inject_tenant_value by blast
  have "map_of (inject_audit_fields ctx now d2 True) ''tenant_id'' = map_of d2 ''tenant_id''"
    by (rule inject_audit_fields_other [OF tenant_key_not_audit])
  with t v show ?thesis by simp
qed

lemma create_request_record:
  assumes "create_request F ctx now meta data = Inr w"
  shows "\<exists>t d d1. truthy_str (current_tenant_id ctx) = Some t
           \<and> written_record w = Some d
           \<and> enforce_write_policies F ctx data = Inr d1
           \<and> map_of d ''tenant_id''
               = Some (case map_of d1 ''tenant_id'' of Some v \<Rightarrow> v | None \<Rightarrow> PStr t)"
proof -
  from assms obtain d1 d2 where pol: "enforce_write_policies F ctx data = Inr d1"
    and inj: "inject_tenant ctx d1 = Inr d2"
    and w: "w = (if uses_sql meta
                 then SqlInsert (table_name meta) (inject_audit_fields ctx now d2 True)
                 else NoSqlPut (inject_audit_fields ctx now d2 True))"
    by (auto simp add: create_request_def encrypt_record_id split: sum.splits)
  from w have "written_record w = Some (inject_audit_fields ctx now d2 True)"
    by (simp add: written_record_def)
  with written_tenant_value [OF inj, of now] pol show ?thesis by auto
qed

lemma upsert_request_record:
  assumes "upsert_request F ctx now meta data replace = Inr w"
  shows "\<exists>t d d1. truthy_str (current_tenant_id ctx) = Some t
           \<and> written_record w = Some d
           \<and> enforce_write_policies F ctx data = Inr d1
           \<and> map_of d ''tenant_id''
               = Some (case map_of d1 ''tenant_id'' of Some v \<Rightarrow> v | None \<Rightarrow> PStr t)"
proof -
  from assms obtain d1 d2 where pol: "enforce_write_policies F ctx data = Inr d1"
    and inj: "inject_tenant ctx d1 = Inr d2"
    and w: "w = (if uses_sql meta
                 then SqlUpsert (table_name meta) (inject_audit_fields ctx now d2 True)
                 else NoSqlUpsert (inject_audit_fields ctx now d2 True) replace)"
    by (auto simp add: upsert_request_def encrypt_record_id split: sum.splits)
  from w have "written_record w = Some (inject_audit_fields ctx now d2 True)"
    by (simp add: written_record_def)
  with written_tenant_value [OF inj, of now] pol show ?thesis by auto
qed

text \<open>
  \<^verbatim>\<open>update\<close> and a physical \<^verbatim>\<open>delete\<close> go through whenever the row before the write
  can be read.
\<close>

lemma update_request_plain:
  assumes "\<not> tenant_enforcer F" and "rls F = None"
    and "fetch_before F B ctx meta entity_id = Inr before"
  shows "\<exists>w. update_request F B ctx now meta entity_id data etag replace = Inr w
           \<and> written_record w = Some (inject_audit_fields ctx now data False)"
  using assms
  by (simp add: update_request_def enforce_write_policies_def encrypt_record_id
      written_record_def)

lemma delete_request_hard:
  assumes "hard \<or> \<not> soft_delete F"
    and "fetch_before F B ctx meta entity_id = Inr before"
  shows "\<exists>w. delete_request F B ctx now now' meta entity_id etag hard = Inr w
           \<and> written_record w = None"
  using assms
  by (auto simp add: delete_request_def written_record_def)

text \<open>
  C8 (as amended). \<^verbatim>\<open>create\<close> and \<^verbatim>\<open>upsert\<close> require a tenant identifier (from the tenant
  context or else the audit context, and not empty): without one they raise. The record
  they write carries \<^verbatim>\<open>tenant_id\<close>: the value the record already has after the tenant
  enforcer and row-level security have run (the caller's record itself when neither is
  configured), and the current tenant identifier only when it has none. \<^verbatim>\<open>update\<close> and
  \<^verbatim>\<open>delete\<close> have no such requirement: with no tenant enforcer and no row-level security
  configured, \<^verbatim>\<open>update\<close> writes the caller's fields with the audit fields added and
  \<^verbatim>\<open>tenant_id\<close> as the caller gave it or absent, and a physical delete writes no record,
  whenever the row before the write can be read.
\<close>

theorem create_and_upsert_require_tenant:
  "(truthy_str (current_tenant_id ctx) = None \<longrightarrow>
      (\<exists>e. create F B ctx now meta data = Inl e)
      \<and> (\<exists>e. upsert F B ctx now meta data replace = Inl e))
   \<and> (create_request F ctx now meta data = Inr w
        \<or> upsert_request F ctx now meta data replace = Inr w \<longrightarrow>
        (\<exists>t d d1. truthy_str (current_tenant_id ctx) = Some t
           \<and> written_record w = Some d
           \<and> enforce_write_policies F ctx data = Inr d1
           \<and> map_of d ''tenant_id''
               = Some (case map_of d1 ''tenant_id'' of Some v \<Rightarrow> v | None \<Rightarrow> PStr t)))
   \<and> (\<not> tenant_enforcer F \<and> rls F = None \<longrightarrow> enforce_write_policies F ctx data = Inr data)
   \<and> (\<not> tenant_enforcer F \<and> rls F = None
        \<and> fetch_before F B ctx meta entity_id = Inr before \<longrightarrow>
        (\<exists>w'. update_request F B ctx now meta entity_id data etag replace = Inr w'
           \<and> written_record w' = Some (inject_audit_fields ctx now data False)
           \<and> map_of (inject_audit_fields ctx now data False) ''tenant_id''
               = map_of data ''tenant_id''))
   \<and> ((hard \<or> \<not> soft_delete F) \<and> fetch_before F B ctx meta entity_id = Inr before \<longrightarrow>
        (\<exists>w'. delete_request F B ctx now now' meta entity_id etag hard = Inr w'
           \<and> written_record w' = None))"
proof (intro conjI impI)
  assume n: "truthy_str (current_tenant_id ctx) = None"
  from create_request_no_tenant [OF n] show "\<exists>e. create F B ctx now meta data = Inl e"
    unfolding create_def using run_write_Inl by blast
  from upsert_request_no_tenant [OF n] show "\<exists>e. upsert F B ctx now meta data replace = Inl e"
    unfolding upsert_def using run_write_Inl by blast
next
  assume "create_request F ctx now meta data = Inr w
        \<or> upsert_request F ctx now meta data replace = Inr w"
  then show "\<exists>t d d1. truthy_str (current_tenant_id ctx) = Some t
           \<and> written_record w = Some d
           \<and> enforce_write_policies F ctx data = Inr d1
           \<and> map_of d ''tenant_id''
               = Some (case map_of d1 ''tenant_id'' of Some v \<Rightarrow> v | None \<Rightarrow> PStr t)"
    using create_request_record upsert_request_record by blast
next
  assume "\<not> tenant_enforcer F \<and> rls F = None"
  then show "enforce_write_policies F ctx data = Inr data"
    by (simp add: enforce_write_policies_def)
next
  assume a: "\<not> tenant_enforcer F \<and> rls F = None
        \<and> fetch_before F B ctx meta entity_id = Inr before"
  have "map_of (inject_audit_fields ctx now data False) ''tenant_id'' = map_of data ''tenant_id''"
    by (rule inject_audit_fields_other [OF tenant_key_not_audit])
  with a show "\<exists>w'. update_request F B ctx now meta entity_id data etag replace = Inr w'
           \<and> written_record w' = Some (inject_audit_fields ctx now data False)
           \<and> map_of (inject_audit_fields ctx now data False) ''tenant_id''
               = map_of data ''tenant_id''"
    using update_request_plain [of F B ctx meta entity_id before now data etag replace] by auto
next
  assume "(hard \<or> \<not> soft_delete F) \<and> fetch_before F B ctx meta entity_id = Inr before"
  then show "\<exists>w'. delete_request F B ctx now now' meta entity_id etag hard = Inr w'
           \<and> written_record w' = None"
    using delete_request_hard by blast
qed

text \<open>The definitions that evaluate a write on the example inputs.\<close>

lemmas write_eval =
  create_def upsert_def update_def delete_def run_write_def create_request_def
  upsert_request_def update_request_def delete_request_def enforce_write_policies_def
  inject_tenant_def inject_audit_fields_def encrypt_record_def written_record_def

text \<open>
  C8 as stated fails: with no tenant context and no audit tenant, \<^verbatim>\<open>update\<close> dispatches
  its request, whose record holds no \<^verbatim>\<open>tenant_id\<close>, and returns the adapter's result; so
  does \<^verbatim>\<open>delete\<close>.
\<close>

theorem update_without_tenant_counterexample:
  "current_tenant_id no_context = None
   \<and> update_request plain_factory example_backends no_context ''2024-01-01T00:00:00'' sql_meta
       (ById (PInt 1)) [(''name'', PStr ''x'')] None False
     = Inr (SqlUpdate ''items'' (ById (PInt 1))
             [(''name'', PStr ''x''), (''updated_at'', PStr ''2024-01-01T00:00:00'')])
   \<and> update plain_factory example_backends no_context ''2024-01-01T00:00:00'' sql_meta
       (ById (PInt 1)) [(''name'', PStr ''x'')] None False
     = Inr []
   \<and> delete plain_factory example_backends no_context ''2024-01-01T00:00:00''
       ''2024-01-01T00:00:00'' sql_meta (ById (PInt 1)) None False
     = Inr []"
  by (simp add: write_eval read_eval)

text \<open>
  The theorem on the example inputs: \<^verbatim>\<open>create\<close> without a tenant raises \<^verbatim>\<open>ValueError\<close>;
  with the tenant \<open>t1\<close> it writes \<^verbatim>\<open>tenant_id\<close> \<open>t1\<close>; \<^verbatim>\<open>update\<close> and a physical delete
  without a tenant dispatch their requests.
\<close>

theorem create_and_upsert_require_tenant_witness:
  "create plain_factory example_backends no_context ''2024-01-01T00:00:00'' sql_meta
       [(''name'', PStr ''x'')] = Inl ValueError
   \<and> create_request plain_factory tenant_context ''2024-01-01T00:00:00'' sql_meta
       [(''name'', PStr ''x'')]
     = Inr (SqlInsert ''items''
             [(''name'', PStr ''x''), (''tenant_id'', PStr ''t1''),
              (''created_at'', PStr ''2024-01-01T00:00:00''), (''created_by'', PStr ''alice''),
              (''updated_at'', PStr ''2024-01-01T00:00:00''), (''updated_by'', PStr ''alice'')])
   \<and> (\<exists>d. written_record
              (SqlInsert ''items''
                [(''name'', PStr ''x''), (''tenant_id'', PStr ''t1''),
                 (''created_at'', PStr ''2024-01-01T00:00:00''), (''created_by'', PStr ''alice''),
                 (''updated_at'', PStr ''2024-01-01T00:00:00''), (''updated_by'', PStr ''alice'')])
              = Some d
            \<and> map_of d ''tenant_id'' = Some (PStr ''t1''))
   \<and> (\<exists>w. update_request plain_factory example_backends no_context ''2024-01-01T00:00:00''
              sql_meta (ById (PInt 1)) [(''name'', PStr ''x'')] None False = Inr w
            \<and> written_record w
                = Some [(''name'', PStr ''x''), (''updated_at'', PStr ''2024-01-01T00:00:00'')])
   \<and> (\<exists>w. delete_request plain_factory example_backends no_context ''2024-01-01T00:00:00''
              ''2024-01-01T00:00:00'' sql_meta (ById (PInt 1)) None True = Inr w
            \<and> written_record w = None)"
proof -
  let ?now = "''2024-01-01T00:00:00''"
  let ?data = "[(''name'', PStr ''x'')]"
  let ?w = "SqlInsert ''items''
             [(''name'', PStr ''x''), (''tenant_id'', PStr ''t1''),
              (''created_at'', PStr ?now), (''created_by'', PStr ''alice''),
              (''updated_at'', PStr ?now), (''updated_by'', PStr ''alice'')]"
  have none: "truthy_str (current_tenant_id no_context) = None"
    by (simp add: read_eval)
  have some: "truthy_str (current_tenant_id tenant_context) = Some ''t1''"
    by (simp add: read_eval)
  have plain: "\<not> tenant_enforcer plain_factory \<and> rls plain_factory = None"
    by (simp add: plain_factory_def)
  have before: "fetch_before plain_factory example_backends no_context sql_meta (ById (PInt 1))
      = Inr (Some [(''id'', PInt 1)])"
    by (simp add: read_eval)
  have err: "\<And>e. create plain_factory example_backends no_context ?now sql_meta ?data = Inl e
      \<Longrightarrow> e = ValueError"
    by (simp add: write_eval read_eval)
  have req: "create_request plain_factory tenant_context ?now sql_meta ?data = Inr ?w"
    by (simp add: write_eval read_eval)
  have audit: "inject_audit_fields no_context ?now ?data False
      = [(''name'', PStr ''x''), (''updated_at'', PStr ?now)]"
    by (simp add: write_eval read_eval)
  note a = create_and_upsert_require_tenant
    [where ctx = no_context and F = plain_factory and B = example_backends and now = ?now
       and meta = sql_meta and data = ?data and replace = False
       and entity_id = "ById (PInt 1)" and before = "Some [(''id'', PInt 1)]"
       and etag = None and hard = True and now' = ?now]
  note b = create_and_upsert_require_tenant
    [where ctx = tenant_context and F = plain_factory and B = example_backends and now = ?now
       and meta = sql_meta and data = ?data and replace = False and w = ?w
       and entity_id = "ById (PInt 1)" and before = "Some [(''id'', PInt 1)]"
       and etag = None and hard = True and now' = ?now]
  from a none err
  have 1: "create plain_factory example_backends no_context ?now sql_meta ?data = Inl ValueError"
    by blast
  from b req some plain
  have 2: "\<exists>d. written_record ?w = Some d \<and> map_of d ''tenant_id'' = Some (PStr ''t1'')"
    by auto
  from a plain before audit
  have 3: "\<exists>w. update_request plain_factory example_backends no_context ?now
              sql_meta (ById (PInt 1)) ?data None False = Inr w
            \<and> written_record w = Some [(''name'', PStr ''x''), (''updated_at'', PStr ?now)]"
    by auto
  from a before
  have 4: "\<exists>w. delete_request plain_factory example_backends no_context ?now
              ?now sql_meta (ById (PInt 1)) None True = Inr w \<and> written_record w = None"
    by auto
  from 1 req 2 3 4 show ?thesis by blast
qed

end
